theory Spec2Isabelle
  imports Main "HOL-Library.Word" "HOL-Library.Sublist" "HOL-Library.Char_ord"
    "HOL-Library.List_Lexorder"
begin

unbundle bit_operations_syntax

section \<open>The route state aggregator: \<open>StreamRouteCollection::RouteMasks\<close>\<close>

type_synonym uint32_t = "32 word"

text \<open>
  The private class \<open>RouteMasks\<close> (StreamRouteCollection.hpp, lines 349-470) holds four
  32-bit bitfields, declared in this order.
\<close>

record RouteMasks =
  needReflow :: uint32_t
  needRepath :: uint32_t
  enabled :: uint32_t
  prevEnabled :: uint32_t

text \<open>The constructor \<open>RouteMasks()\<close>: every field is 0.\<close>

definition RouteMasks_init :: RouteMasks where
  "RouteMasks_init = \<lparr>needReflow = 0, needRepath = 0, enabled = 0, prevEnabled = 0\<rparr>"

text \<open>\<open>setBit(index, mask)\<close> is \<open>mask |= index\<close>: the "index" is itself a mask.\<close>

definition setBit :: "uint32_t \<Rightarrow> uint32_t \<Rightarrow> uint32_t" where
  "setBit index m = m OR index"

definition setEnabledRoute :: "uint32_t \<Rightarrow> RouteMasks \<Rightarrow> RouteMasks" where
  "setEnabledRoute index m = m\<lparr>enabled := setBit index (enabled m)\<rparr>"

definition setNeedReflowRoute :: "uint32_t \<Rightarrow> RouteMasks \<Rightarrow> RouteMasks" where
  "setNeedReflowRoute index m = m\<lparr>needReflow := setBit index (needReflow m)\<rparr>"

definition setNeedRepathRoute :: "uint32_t \<Rightarrow> RouteMasks \<Rightarrow> RouteMasks" where
  "setNeedRepathRoute index m = m\<lparr>needRepath := setBit index (needRepath m)\<rparr>"

definition needReflowRoutes :: "RouteMasks \<Rightarrow> uint32_t" where
  "needReflowRoutes m = needReflow m"

definition needRepathRoutes :: "RouteMasks \<Rightarrow> uint32_t" where
  "needRepathRoutes m = needRepath m"

definition enabledRoutes :: "RouteMasks \<Rightarrow> uint32_t" where
  "enabledRoutes m = enabled m"

definition prevEnabledRoutes :: "RouteMasks \<Rightarrow> uint32_t" where
  "prevEnabledRoutes m = prevEnabled m"

text \<open>
  The methods of \<open>RouteMasks\<close> that the collection re-exports under the same name carry
  the prefix \<open>RouteMasks_\<close> here.
\<close>

definition RouteMasks_routingHasChanged :: "RouteMasks \<Rightarrow> bool" where
  "RouteMasks_routingHasChanged m =
     (prevEnabledRoutes m \<noteq> enabledRoutes m
      \<or> needReflowRoutes m \<noteq> 0
      \<or> needRepathRoutes m \<noteq> 0)"

text \<open>\<open>reset()\<close>: four assignments, in the order of the source.\<close>

definition RouteMasks_reset :: "RouteMasks \<Rightarrow> RouteMasks" where
  "RouteMasks_reset m =
     (let m1 = m\<lparr>prevEnabled := enabled m\<rparr>;
          m2 = m1\<lparr>enabled := 0\<rparr>;
          m3 = m2\<lparr>needReflow := 0\<rparr>
      in m3\<lparr>needRepath := 0\<rparr>)"

definition RouteMasks_unmutedRoutes :: "RouteMasks \<Rightarrow> uint32_t" where
  "RouteMasks_unmutedRoutes m =
     prevEnabledRoutes m AND enabledRoutes m AND NOT (needReflowRoutes m)"

definition RouteMasks_routesToMute :: "RouteMasks \<Rightarrow> uint32_t" where
  "RouteMasks_routesToMute m =
     (prevEnabledRoutes m AND NOT (enabledRoutes m)) OR needReflowRoutes m"

definition RouteMasks_openedRoutes :: "RouteMasks \<Rightarrow> uint32_t" where
  "RouteMasks_openedRoutes m =
     prevEnabledRoutes m AND enabledRoutes m AND NOT (needRepathRoutes m)"

definition RouteMasks_routesToDisable :: "RouteMasks \<Rightarrow> uint32_t" where
  "RouteMasks_routesToDisable m =
     (prevEnabledRoutes m AND NOT (enabledRoutes m)) OR needRepathRoutes m"

section \<open>Collaborators: routes, streams, directions\<close>

text \<open>
  Modelled from the spec: \<open>Direction.hpp\<close> is not part of the sources. The collection
  declares \<open>mRoutes[Direction::gNbDirections]\<close> and indexes it both with
  \<open>Direction::Output\<close> / \<open>Direction::Input\<close> and with the boolean \<open>isOut()\<close>, so
  there are two directions, \<open>Input\<close> at index 0 (\<open>false\<close>) and \<open>Output\<close> at index 1
  (\<open>true\<close>). An array indexed by a direction is a function on \<open>Direction\<close>.
\<close>

datatype Direction = Input | Output

definition dirOf :: "bool \<Rightarrow> Direction" where
  "dirOf b = (if b then Output else Input)"

text \<open>
  Modelled from the spec: \<open>IoStream.hpp\<close> is not part of the sources. Section 3 and 6 of
  the specification give a stream its direction and the flags "direct", "started",
  "routed by policy" and "new route available". Streams are owned by the audio I/O layer;
  the collection only holds pointers to them, so the stream objects live in a store
  indexed by address, and a pointer is \<open>None\<close> (the null pointer) or \<open>Some\<close> address.
\<close>

record IoStream =
  streamIsOut :: bool
  isDirect :: bool
  isStarted :: bool
  isRoutedByPolicy :: bool
  isNewRouteAvailable :: bool

type_synonym stream_store = "nat \<Rightarrow> IoStream"

text \<open>
  Modelled from the spec: \<open>AudioStreamRoute.hpp\<close> is not part of the sources. Section 3
  and 6 of the specification give a route its name, direction, mask, the booleans "in use
  this cycle" (\<open>isUsed()\<close>, set by \<open>setUsed()\<close>) and "was in use previous cycle"
  (\<open>previouslyUsed()\<close>), and the flags \<open>needReflow()\<close> and \<open>needRepath()\<close>. The registry
  owns its routes (its \<open>reset()\<close> deletes each of them), so a registry entry holds the
  route's state by value; the entry is \<open>None\<close> when the stored pointer is null.
\<close>

record AudioStreamRoute =
  getName :: string
  isOut :: bool
  getMask :: uint32_t
  isUsed :: bool
  previouslyUsed :: bool
  routeNeedReflow :: bool
  routeNeedRepath :: bool

definition setUsed :: "AudioStreamRoute \<Rightarrow> AudioStreamRoute" where
  "setUsed r = r\<lparr>isUsed := True\<rparr>"

text \<open>
  What the collection does is observed on a trace: the messages it logs and the calls it
  makes on a route's device-level operations, each call with the receiver as it was when
  called, the arguments, and the result where there is one.
\<close>

datatype event =
    LogWarning string
  | LogVerbose string
  | LogError string
  | CallSetStream AudioStreamRoute nat bool
  | CallRoute AudioStreamRoute bool int
  | CallUnroute AudioStreamRoute bool
  | CallResetAvailability AudioStreamRoute

text \<open>
  The operations of a route whose bodies are outside the sources are parameters of the
  model. Each may change the route it is called on and the stream objects.
  \<open>android::status_t\<close> is an integer and \<open>android::OK\<close> is 0.
\<close>

record collaborators =
  isMatchingWithStream :: "AudioStreamRoute \<Rightarrow> IoStream \<Rightarrow> bool"
  setStream :: "AudioStreamRoute \<Rightarrow> nat \<Rightarrow> stream_store
                  \<Rightarrow> bool \<times> AudioStreamRoute \<times> stream_store"
  route :: "AudioStreamRoute \<Rightarrow> bool \<Rightarrow> stream_store
                  \<Rightarrow> int \<times> AudioStreamRoute \<times> stream_store"
  unroute :: "AudioStreamRoute \<Rightarrow> bool \<Rightarrow> stream_store
                  \<Rightarrow> AudioStreamRoute \<times> stream_store"
  routeResetAvailability :: "AudioStreamRoute \<Rightarrow> stream_store
                  \<Rightarrow> AudioStreamRoute \<times> stream_store"

definition OK :: int where
  "OK = 0"

text \<open>Everything outside the collection: the stream objects and the trace.\<close>

record world =
  streams :: stream_store
  trace :: "event list"

definition emit :: "event list \<Rightarrow> world \<Rightarrow> world" where
  "emit es w = w\<lparr>trace := trace w @ es\<rparr>"

text \<open>
  Dereferencing a null pointer or the past-the-end iterator of a container is undefined
  behaviour in C++; the model returns a fault there.
\<close>

datatype fault = NullDereference | EndIteratorDereference

section \<open>The collection\<close>

text \<open>
  \<open>StreamRouteCollection\<close> is a \<open>std::map<std::string, AudioStreamRoute *>\<close>, iterated in
  the order of its keys: an association list kept sorted by key, without duplicate keys.
  Its two data members are arrays indexed by direction.
\<close>

type_synonym registry = "(string \<times> AudioStreamRoute option) list"

record StreamRouteCollection =
  routes :: registry
  mOrderedStreamList :: "Direction \<Rightarrow> nat option list"
  mRoutes :: "Direction \<Rightarrow> RouteMasks"

definition registry_ok :: "registry \<Rightarrow> bool" where
  "registry_ok es = (sorted (map fst es) \<and> distinct (map fst es))"

text \<open>\<open>find(key) != end()\<close>.\<close>

definition contains :: "registry \<Rightarrow> string \<Rightarrow> bool" where
  "contains es key = (map_of es key \<noteq> None)"

text \<open>\<open>(*this)[key] = element\<close>: assign to the entry, created in key order if absent.\<close>

fun assign :: "string \<Rightarrow> AudioStreamRoute option \<Rightarrow> registry \<Rightarrow> registry" where
  "assign key v [] = [(key, v)]"
| "assign key v ((k, x) # es) =
     (if key = k then (k, v) # es
      else if key < k then (key, v) # (k, x) # es
      else (k, x) # assign key v es)"

subsection \<open>\<open>resetAvailability\<close> (lines 49-57)\<close>

text \<open>
  The second loop calls \<open>it.second->resetAvailability()\<close> on every entry without a null
  check.
\<close>

fun resetAvailabilityLoop ::
  "collaborators \<Rightarrow> registry \<Rightarrow> world \<Rightarrow> fault + (registry \<times> world)" where
  "resetAvailabilityLoop X [] w = Inr ([], w)"
| "resetAvailabilityLoop X ((k, None) # es) w = Inl NullDereference"
| "resetAvailabilityLoop X ((k, Some r) # es) w =
     (case routeResetAvailability X r (streams w) of (r', st') \<Rightarrow>
        (case resetAvailabilityLoop X es
                (emit [CallResetAvailability r] (w\<lparr>streams := st'\<rparr>)) of
           Inl f \<Rightarrow> Inl f
         | Inr (es', w') \<Rightarrow> Inr ((k, Some r') # es', w')))"

definition resetAvailability ::
  "collaborators \<Rightarrow> StreamRouteCollection \<Rightarrow> world
     \<Rightarrow> fault + (StreamRouteCollection \<times> world)" where
  "resetAvailability X c w =
     (let c1 = c\<lparr>mRoutes := (\<lambda>i. RouteMasks_reset (mRoutes c i))\<rparr>
      in case resetAvailabilityLoop X (routes c1) w of
           Inl f \<Rightarrow> Inl f
         | Inr (es', w') \<Rightarrow> Inr (c1\<lparr>routes := es'\<rparr>, w'))"

subsection \<open>\<open>push_back\<close> (lines 65-74)\<close>

definition routeKey :: "AudioStreamRoute \<Rightarrow> string" where
  "routeKey element = getName element @ (if isOut element then ''_Playback'' else ''_Capture'')"

definition push_back ::
  "AudioStreamRoute option \<Rightarrow> StreamRouteCollection \<Rightarrow> world
     \<Rightarrow> fault + (StreamRouteCollection \<times> world)" where
  "push_back element c w =
     (case element of
        None \<Rightarrow> Inl NullDereference
      | Some e \<Rightarrow>
          (let key = routeKey e in
           if contains (routes c) key
           then Inr (c, emit [LogWarning (''push_back: element('' @ key @ '') already added'')] w)
           else Inr (c\<lparr>routes := assign key element (routes c)\<rparr>, w)))"

subsection \<open>\<open>setStreamForRoute\<close> (lines 146-160)\<close>

definition eligible :: "IoStream \<Rightarrow> bool" where
  "eligible stream =
     (isStarted stream \<and> isRoutedByPolicy stream \<and> \<not> isNewRouteAvailable stream)"

fun setStreamForRouteLoop ::
  "collaborators \<Rightarrow> AudioStreamRoute \<Rightarrow> nat option list \<Rightarrow> world
     \<Rightarrow> fault + (bool \<times> AudioStreamRoute \<times> world)" where
  "setStreamForRouteLoop X rt [] w = Inr (False, rt, w)"
| "setStreamForRouteLoop X rt (None # ps) w = Inl NullDereference"
| "setStreamForRouteLoop X rt (Some a # ps) w =
     (if eligible (streams w a) then
        (if isMatchingWithStream X rt (streams w a) then
           (case setStream X rt a (streams w) of (ok, rt', st') \<Rightarrow>
              Inr (ok, rt',
                   emit [LogVerbose (''setStreamForRoute: route '' @ getName rt
                                      @ '' is maching with the stream''),
                         CallSetStream rt a ok]
                        (w\<lparr>streams := st'\<rparr>)))
         else setStreamForRouteLoop X rt ps w)
      else setStreamForRouteLoop X rt ps w)"

definition setStreamForRoute ::
  "collaborators \<Rightarrow> StreamRouteCollection \<Rightarrow> AudioStreamRoute \<Rightarrow> world
     \<Rightarrow> fault + (bool \<times> AudioStreamRoute \<times> world)" where
  "setStreamForRoute X c rt w =
     setStreamForRouteLoop X rt (mOrderedStreamList c (dirOf (isOut rt))) w"

subsection \<open>\<open>prepareRouting\<close> (lines 76-91)\<close>

text \<open>
  The body of the loop, for one entry of the registry. It reads the stream lists of the
  collection and updates the route of the entry, the masks and the world.
\<close>

definition prepareRoute ::
  "collaborators \<Rightarrow> StreamRouteCollection \<Rightarrow> AudioStreamRoute option
     \<Rightarrow> (Direction \<Rightarrow> RouteMasks) \<Rightarrow> world
     \<Rightarrow> fault + (AudioStreamRoute option \<times> (Direction \<Rightarrow> RouteMasks) \<times> world)" where
  "prepareRoute X c p m w =
     (case p of
        None \<Rightarrow> Inr (None, m, w)
      | Some rt \<Rightarrow>
          if \<not> isUsed rt then
            (case setStreamForRoute X c rt w of
               Inl f \<Rightarrow> Inl f
             | Inr (ok, rt1, w1) \<Rightarrow>
                 if ok then
                   (let rt2 = setUsed rt1;
                        d = dirOf (isOut rt2);
                        m1 = m(d := setEnabledRoute (getMask rt2) (m d));
                        m2 = (if routeNeedReflow rt2
                              then m1(d := setNeedReflowRoute (getMask rt2) (m1 d)) else m1);
                        m3 = (if routeNeedRepath rt2
                              then m2(d := setNeedRepathRoute (getMask rt2) (m2 d)) else m2)
                    in Inr (Some rt2, m3, w1))
                 else Inr (Some rt1, m, w1))
          else Inr (Some rt, m, w))"

fun prepareRoutingLoop ::
  "collaborators \<Rightarrow> StreamRouteCollection \<Rightarrow> registry
     \<Rightarrow> (Direction \<Rightarrow> RouteMasks) \<Rightarrow> world
     \<Rightarrow> fault + (registry \<times> (Direction \<Rightarrow> RouteMasks) \<times> world)" where
  "prepareRoutingLoop X c [] m w = Inr ([], m, w)"
| "prepareRoutingLoop X c ((k, p) # es) m w =
     (case prepareRoute X c p m w of
        Inl f \<Rightarrow> Inl f
      | Inr (p', m', w') \<Rightarrow>
          (case prepareRoutingLoop X c es m' w' of
             Inl f \<Rightarrow> Inl f
           | Inr (es', m'', w'') \<Rightarrow> Inr ((k, p') # es', m'', w'')))"

definition prepareRouting ::
  "collaborators \<Rightarrow> StreamRouteCollection \<Rightarrow> world
     \<Rightarrow> fault + (StreamRouteCollection \<times> world)" where
  "prepareRouting X c w =
     (case prepareRoutingLoop X c (routes c) (mRoutes c) w of
        Inl f \<Rightarrow> Inl f
      | Inr (es', m', w') \<Rightarrow> Inr (c\<lparr>routes := es', mRoutes := m'\<rparr>, w'))"

subsection \<open>Queries on the masks (lines 93-117 and 295-328)\<close>

definition routingHasChanged :: "StreamRouteCollection \<Rightarrow> bool" where
  "routingHasChanged c =
     (RouteMasks_routingHasChanged (mRoutes c Output)
      \<or> RouteMasks_routingHasChanged (mRoutes c Input))"

definition needRepathRouteMask :: "StreamRouteCollection \<Rightarrow> Direction \<Rightarrow> uint32_t" where
  "needRepathRouteMask c dir = needRepathRoutes (mRoutes c dir)"

definition needReflowRouteMask :: "StreamRouteCollection \<Rightarrow> Direction \<Rightarrow> uint32_t" where
  "needReflowRouteMask c dir = needReflowRoutes (mRoutes c dir)"

definition enabledRouteMask :: "StreamRouteCollection \<Rightarrow> Direction \<Rightarrow> uint32_t" where
  "enabledRouteMask c dir = enabledRoutes (mRoutes c dir)"

definition prevEnabledRouteMask :: "StreamRouteCollection \<Rightarrow> Direction \<Rightarrow> uint32_t" where
  "prevEnabledRouteMask c dir = prevEnabledRoutes (mRoutes c dir)"

definition unmutedRoutes :: "StreamRouteCollection \<Rightarrow> Direction \<Rightarrow> uint32_t" where
  "unmutedRoutes c dir = RouteMasks_unmutedRoutes (mRoutes c dir)"

definition routesToMute :: "StreamRouteCollection \<Rightarrow> Direction \<Rightarrow> uint32_t" where
  "routesToMute c dir = RouteMasks_routesToMute (mRoutes c dir)"

definition openedRoutes :: "StreamRouteCollection \<Rightarrow> Direction \<Rightarrow> uint32_t" where
  "openedRoutes c dir = RouteMasks_openedRoutes (mRoutes c dir)"

definition routesToDisable :: "StreamRouteCollection \<Rightarrow> Direction \<Rightarrow> uint32_t" where
  "routesToDisable c dir = RouteMasks_routesToDisable (mRoutes c dir)"

subsection \<open>\<open>addStream\<close> and \<open>removeStream\<close> (lines 119-132)\<close>

text \<open>
  Both take the stream by reference, so the argument is the address of a stream object;
  its flags are read from the store.
\<close>

definition addStream :: "stream_store \<Rightarrow> nat \<Rightarrow> StreamRouteCollection \<Rightarrow> StreamRouteCollection" where
  "addStream st a c =
     (let d = dirOf (streamIsOut (st a)) in
      if isDirect (st a)
      then c\<lparr>mOrderedStreamList := (mOrderedStreamList c)(d := Some a # mOrderedStreamList c d)\<rparr>
      else c\<lparr>mOrderedStreamList := (mOrderedStreamList c)(d := mOrderedStreamList c d @ [Some a])\<rparr>)"

definition removeStream :: "stream_store \<Rightarrow> nat \<Rightarrow> StreamRouteCollection \<Rightarrow> StreamRouteCollection" where
  "removeStream st a c =
     (let d = dirOf (streamIsOut (st a)) in
      c\<lparr>mOrderedStreamList := (mOrderedStreamList c)(d := removeAll (Some a) (mOrderedStreamList c d))\<rparr>)"

subsection \<open>\<open>getVoiceStreamRoute\<close> (lines 162-171)\<close>

text \<open>
  \<open>*it\<close> is evaluated on \<open>begin()\<close> of the output list with no test against \<open>end()\<close>.
  The result is the pointer read, with an error logged when that pointer is null.
\<close>

definition getVoiceStreamRoute ::
  "StreamRouteCollection \<Rightarrow> world \<Rightarrow> fault + (nat option \<times> world)" where
  "getVoiceStreamRoute c w =
     (case mOrderedStreamList c Output of
        [] \<Rightarrow> Inl EndIteratorDereference
      | p # ps \<Rightarrow>
          Inr (p, if p = None
                  then emit [LogError ''getVoiceStreamRoute: current stream NOT FOUND for echo ref''] w
                  else w))"

subsection \<open>\<open>disableRoutes\<close> and \<open>enableRoutes\<close> (lines 182-221, 269-283)\<close>

definition toBeDisabled :: "AudioStreamRoute \<Rightarrow> bool" where
  "toBeDisabled rt = ((previouslyUsed rt \<and> \<not> isUsed rt) \<or> routeNeedRepath rt)"

fun disableRoutesLoop ::
  "collaborators \<Rightarrow> bool \<Rightarrow> registry \<Rightarrow> world \<Rightarrow> registry \<times> world" where
  "disableRoutesLoop X isPostDisable [] w = ([], w)"
| "disableRoutesLoop X isPostDisable ((k, None) # es) w =
     (case disableRoutesLoop X isPostDisable es w of (es', w') \<Rightarrow> ((k, None) # es', w'))"
| "disableRoutesLoop X isPostDisable ((k, Some rt) # es) w =
     (if toBeDisabled rt then
        (let w1 = emit [LogVerbose (''disableRoutes: Route '' @ getName rt @ '' to be disabled'')] w
         in case unroute X rt isPostDisable (streams w1) of (rt', st') \<Rightarrow>
              (case disableRoutesLoop X isPostDisable es
                      (emit [CallUnroute rt isPostDisable] (w1\<lparr>streams := st'\<rparr>)) of
                 (es', w') \<Rightarrow> ((k, Some rt') # es', w')))
      else
        (case disableRoutesLoop X isPostDisable es w of (es', w') \<Rightarrow> ((k, Some rt) # es', w')))"

definition disableRoutes ::
  "collaborators \<Rightarrow> bool \<Rightarrow> StreamRouteCollection \<Rightarrow> world \<Rightarrow> StreamRouteCollection \<times> world" where
  "disableRoutes X isPostDisable c w =
     (case disableRoutesLoop X isPostDisable (routes c) w of
        (es', w') \<Rightarrow> (c\<lparr>routes := es'\<rparr>, w'))"

definition toBeEnabled :: "AudioStreamRoute \<Rightarrow> bool" where
  "toBeEnabled rt = ((\<not> previouslyUsed rt \<and> isUsed rt) \<or> routeNeedRepath rt)"

fun enableRoutesLoop ::
  "collaborators \<Rightarrow> bool \<Rightarrow> registry \<Rightarrow> world \<Rightarrow> registry \<times> world" where
  "enableRoutesLoop X isPreEnable [] w = ([], w)"
| "enableRoutesLoop X isPreEnable ((k, None) # es) w =
     (case enableRoutesLoop X isPreEnable es w of (es', w') \<Rightarrow> ((k, None) # es', w'))"
| "enableRoutesLoop X isPreEnable ((k, Some rt) # es) w =
     (if toBeEnabled rt then
        (let w1 = emit [LogVerbose (''enableRoutes: Route'' @ getName rt @ '' to be enabled'')] w
         in case route X rt isPreEnable (streams w1) of (status, rt', st') \<Rightarrow>
              (let w2 = emit [CallRoute rt isPreEnable status] (w1\<lparr>streams := st'\<rparr>);
                   w3 = (if status \<noteq> OK
                         then emit [LogError (CHR 0x09 # '' error while routing '' @ getName rt')] w2
                         else w2)
               in case enableRoutesLoop X isPreEnable es w3 of
                    (es', w') \<Rightarrow> ((k, Some rt') # es', w')))
      else
        (case enableRoutesLoop X isPreEnable es w of (es', w') \<Rightarrow> ((k, Some rt) # es', w')))"

definition enableRoutes ::
  "collaborators \<Rightarrow> bool \<Rightarrow> StreamRouteCollection \<Rightarrow> world \<Rightarrow> StreamRouteCollection \<times> world" where
  "enableRoutes X isPreEnable c w =
     (case enableRoutesLoop X isPreEnable (routes c) w of
        (es', w') \<Rightarrow> (c\<lparr>routes := es'\<rparr>, w'))"



section \<open>Reading the trace\<close>

text \<open>The events that a run from world \<open>w\<close> to world \<open>w'\<close> has added.\<close>

definition since :: "world \<Rightarrow> world \<Rightarrow> event list" where
  "since w w' = drop (length (trace w)) (trace w')"

text \<open>The calls of one operation in a list of events, in order, with their arguments.\<close>

fun routeCalls :: "event list \<Rightarrow> (AudioStreamRoute \<times> bool) list" where
  "routeCalls [] = []"
| "routeCalls (e # es) =
     (case e of CallRoute r f s \<Rightarrow> (r, f) # routeCalls es | _ \<Rightarrow> routeCalls es)"

fun unrouteCalls :: "event list \<Rightarrow> (AudioStreamRoute \<times> bool) list" where
  "unrouteCalls [] = []"
| "unrouteCalls (e # es) =
     (case e of CallUnroute r f \<Rightarrow> (r, f) # unrouteCalls es | _ \<Rightarrow> unrouteCalls es)"

fun setStreamCalls :: "event list \<Rightarrow> (AudioStreamRoute \<times> nat) list" where
  "setStreamCalls [] = []"
| "setStreamCalls (e # es) =
     (case e of CallSetStream r a ok \<Rightarrow> (r, a) # setStreamCalls es | _ \<Rightarrow> setStreamCalls es)"

fun resetCalls :: "event list \<Rightarrow> AudioStreamRoute list" where
  "resetCalls [] = []"
| "resetCalls (e # es) =
     (case e of CallResetAvailability r \<Rightarrow> r # resetCalls es | _ \<Rightarrow> resetCalls es)"

text \<open>The routes of a registry (its non-null entries), in iteration order.\<close>

fun registered :: "registry \<Rightarrow> AudioStreamRoute list" where
  "registered [] = []"
| "registered ((k, None) # es) = registered es"
| "registered ((k, Some r) # es) = r # registered es"

text \<open>Every bit set in \<open>a\<close> is set in \<open>b\<close>.\<close>

definition subMask :: "uint32_t \<Rightarrow> uint32_t \<Rightarrow> bool" where
  "subMask a b = (a OR b = b)"

text \<open>
  A stream is a candidate for a route when the scan of \<open>setStreamForRoute\<close> would stop at
  it; \<open>firstMatch\<close> is the first candidate of a list of non-null pointers; \<open>offer\<close> is
  what the scan does with the stream it stops at.
\<close>

definition candidate :: "collaborators \<Rightarrow> AudioStreamRoute \<Rightarrow> stream_store \<Rightarrow> nat \<Rightarrow> bool" where
  "candidate X rt st a = (eligible (st a) \<and> isMatchingWithStream X rt (st a))"

definition firstMatch ::
  "collaborators \<Rightarrow> AudioStreamRoute \<Rightarrow> stream_store \<Rightarrow> nat option list \<Rightarrow> nat option" where
  "firstMatch X rt st ps = find (candidate X rt st) (map the ps)"

definition offer ::
  "collaborators \<Rightarrow> AudioStreamRoute \<Rightarrow> nat \<Rightarrow> world \<Rightarrow> bool \<times> AudioStreamRoute \<times> world" where
  "offer X rt a w =
     (case setStream X rt a (streams w) of (ok, rt', st') \<Rightarrow>
        (ok, rt',
         emit [LogVerbose (''setStreamForRoute: route '' @ getName rt
                            @ '' is maching with the stream''),
               CallSetStream rt a ok]
              (w\<lparr>streams := st'\<rparr>)))"

text \<open>
  Between two states of the masks: in every direction enabled, needReflow and needRepath
  have only gained bits, and previouslyEnabled is the same.
\<close>

definition masksGrow :: "(Direction \<Rightarrow> RouteMasks) \<Rightarrow> (Direction \<Rightarrow> RouteMasks) \<Rightarrow> bool" where
  "masksGrow m m' =
     (\<forall>d. subMask (enabled (m d)) (enabled (m' d))
        \<and> subMask (needReflow (m d)) (needReflow (m' d))
        \<and> subMask (needRepath (m d)) (needRepath (m' d))
        \<and> prevEnabled (m' d) = prevEnabled (m d))"

text \<open>What a successful match folds into the masks of the route's direction.\<close>

definition foldMasks :: "AudioStreamRoute \<Rightarrow> (Direction \<Rightarrow> RouteMasks) \<Rightarrow> Direction \<Rightarrow> RouteMasks" where
  "foldMasks rt m =
     m(dirOf (isOut rt) :=
         \<lparr>needReflow = (if routeNeedReflow rt
                        then needReflow (m (dirOf (isOut rt))) OR getMask rt
                        else needReflow (m (dirOf (isOut rt)))),
          needRepath = (if routeNeedRepath rt
                        then needRepath (m (dirOf (isOut rt))) OR getMask rt
                        else needRepath (m (dirOf (isOut rt)))),
          enabled = enabled (m (dirOf (isOut rt))) OR getMask rt,
          prevEnabled = prevEnabled (m (dirOf (isOut rt)))\<rparr>)"

section \<open>Concrete instances\<close>

text \<open>
  A small system on which the statements below are evaluated: collaborators that match a
  route with any stream of its direction and bind it by raising the stream's "new route
  available" flag, and collaborators whose \<open>setStream\<close> always refuses.
\<close>

definition demoX :: collaborators where
  "demoX =
     \<lparr>isMatchingWithStream = (\<lambda>r s. isOut r = streamIsOut s),
      setStream = (\<lambda>r a st. (True, r, st(a := (st a)\<lparr>isNewRouteAvailable := True\<rparr>))),
      route = (\<lambda>r pre st. (if getName r = ''broken'' then - 1 else 0, r, st)),
      unroute = (\<lambda>r post st. (r, st)),
      routeResetAvailability =
        (\<lambda>r st. (r\<lparr>isUsed := False, previouslyUsed := isUsed r\<rparr>, st))\<rparr>"

definition refusingX :: collaborators where
  "refusingX = demoX\<lparr>setStream := (\<lambda>r a st. (False, r, st))\<rparr>"

definition mkStream :: "bool \<Rightarrow> bool \<Rightarrow> IoStream" where
  "mkStream out direct =
     \<lparr>streamIsOut = out, isDirect = direct, isStarted = True, isRoutedByPolicy = True,
      isNewRouteAvailable = False\<rparr>"

text \<open>Streams 1 and 2 are output streams, 2 is direct; every other address is an input stream.\<close>

definition demoStreams :: stream_store where
  "demoStreams = (\<lambda>a. mkStream (a = 1 \<or> a = 2) (a = 2))"

definition demoWorld :: world where
  "demoWorld = \<lparr>streams = demoStreams, trace = []\<rparr>"

definition mkRoute :: "string \<Rightarrow> bool \<Rightarrow> uint32_t \<Rightarrow> bool \<Rightarrow> bool \<Rightarrow> AudioStreamRoute" where
  "mkRoute n out msk used prev =
     \<lparr>getName = n, isOut = out, getMask = msk, isUsed = used, previouslyUsed = prev,
      routeNeedReflow = False, routeNeedRepath = False\<rparr>"

definition emptyCollection :: StreamRouteCollection where
  "emptyCollection =
     \<lparr>routes = [], mOrderedStreamList = (\<lambda>d. []), mRoutes = (\<lambda>d. RouteMasks_init)\<rparr>"

definition demoMasks :: RouteMasks where
  "demoMasks = \<lparr>needReflow = 1, needRepath = 0, enabled = 3, prevEnabled = 6\<rparr>"

definition masksCollection :: StreamRouteCollection where
  "masksCollection = emptyCollection\<lparr>mRoutes := (\<lambda>d. demoMasks)\<rparr>"

text \<open>
  A registry with an output route and an input route, and one with a route in each state
  that the enable and disable passes distinguish, and a null entry.
\<close>

definition demoCollection :: StreamRouteCollection where
  "demoCollection =
     \<lparr>routes = [(''media_Playback'', Some (mkRoute ''media'' True 1 False False)),
                (''mic_Capture'', Some (mkRoute ''mic'' False 1 False False))],
      mOrderedStreamList = (\<lambda>d. case d of Output \<Rightarrow> [Some 2, Some 1] | Input \<Rightarrow> [Some 3]),
      mRoutes = (\<lambda>d. demoMasks)\<rparr>"


definition enabledOnly :: RouteMasks where
  "enabledOnly = \<lparr>needReflow = 0, needRepath = 0, enabled = 1, prevEnabled = 0\<rparr>"

definition dupRoute :: AudioStreamRoute where
  "dupRoute = mkRoute ''media'' True 4 False False"

definition freshRoute :: AudioStreamRoute where
  "freshRoute = mkRoute ''media'' False 4 False False"

text \<open>
  A collection for the match phase: two unused routes, one of them flagging a reflow, and
  a route already in use; two output streams, the direct one first, and an input stream.
\<close>

definition matchCollection :: StreamRouteCollection where
  "matchCollection =
     \<lparr>routes = [(''media_Playback'', Some (mkRoute ''media'' True 4 False False)),
                (''mic_Capture'',
                 Some ((mkRoute ''mic'' False 8 False False)\<lparr>routeNeedReflow := True\<rparr>)),
                (''voice_Playback'', Some (mkRoute ''voice'' True 16 True False))],
      mOrderedStreamList = (\<lambda>d. case d of Output \<Rightarrow> [Some 2, Some 1] | Input \<Rightarrow> [Some 3]),
      mRoutes = (\<lambda>d. demoMasks)\<rparr>"

text \<open>
  In a list of stream pointers, stream \<open>d\<close> occurs at a position with \<open>nd\<close> somewhere
  after it and nowhere before it.
\<close>

definition before_in :: "nat \<Rightarrow> nat \<Rightarrow> nat option list \<Rightarrow> bool" where
  "before_in d nd ps = (\<exists>xs ys. ps = xs @ Some d # ys \<and> Some nd \<notin> set xs \<and> Some nd \<in> set ys)"

text \<open>A collection whose output list holds one null pointer.\<close>

definition nullHeadCollection :: StreamRouteCollection where
  "nullHeadCollection = emptyCollection\<lparr>mOrderedStreamList := (\<lambda>d. [None])\<rparr>"


section \<open>Auxiliary facts\<close>

lemmas RouteMasks_getters =
  needReflowRoutes_def needRepathRoutes_def enabledRoutes_def prevEnabledRoutes_def

lemma RouteMasks_reset_eq:
  "RouteMasks_reset m = \<lparr>needReflow = 0, needRepath = 0, enabled = 0, prevEnabled = enabled m\<rparr>"
  by (simp add: RouteMasks_reset_def)

lemma trace_emit [simp]: "trace (emit es w) = trace w @ es"
  by (simp add: emit_def)

lemma streams_emit [simp]: "streams (emit es w) = streams w"
  by (simp add: emit_def)

lemma since_append: "trace w' = trace w @ tr \<Longrightarrow> since w w' = tr"
  by (simp add: since_def)

lemma resetCalls_append [simp]: "resetCalls (xs @ ys) = resetCalls xs @ resetCalls ys"
  by (induction xs) (auto split: event.splits)

lemma routeCalls_append [simp]: "routeCalls (xs @ ys) = routeCalls xs @ routeCalls ys"
  by (induction xs) (auto split: event.splits)

lemma unrouteCalls_append [simp]: "unrouteCalls (xs @ ys) = unrouteCalls xs @ unrouteCalls ys"
  by (induction xs) (auto split: event.splits)

lemma setStreamCalls_append [simp]:
  "setStreamCalls (xs @ ys) = setStreamCalls xs @ setStreamCalls ys"
  by (induction xs) (auto split: event.splits)

lemma resetCalls_map [simp]: "resetCalls (map CallResetAvailability rs) = rs"
  by (induction rs) auto

subsection \<open>The availability reset visits every entry\<close>

lemma resetAvailabilityLoop_total:
  "\<forall>e \<in> set es. snd e \<noteq> None \<Longrightarrow>
   \<exists>es' w'. resetAvailabilityLoop X es w = Inr (es', w')
     \<and> map fst es' = map fst es
     \<and> (\<forall>e \<in> set es'. snd e \<noteq> None)
     \<and> list_all2 (\<lambda>r r'. \<exists>st. r' = fst (routeResetAvailability X r st))
           (registered es) (registered es')
     \<and> trace w' = trace w @ map CallResetAvailability (registered es)"
proof (induction es arbitrary: w)
  case Nil
  then show ?case by simp
next
  case (Cons e es)
  obtain k r where e: "e = (k, Some r)"
    using Cons.prems by (cases e) auto
  obtain r' st' where rr: "routeResetAvailability X r (streams w) = (r', st')"
    by (cases "routeResetAvailability X r (streams w)")
  let ?w1 = "emit [CallResetAvailability r] (w\<lparr>streams := st'\<rparr>)"
  from Cons.prems have "\<forall>e \<in> set es. snd e \<noteq> None" by simp
  from Cons.IH [OF this, of ?w1]
  obtain es' w' where IH: "resetAvailabilityLoop X es ?w1 = Inr (es', w')"
    "map fst es' = map fst es" "\<forall>e \<in> set es'. snd e \<noteq> None"
    "list_all2 (\<lambda>r r'. \<exists>st. r' = fst (routeResetAvailability X r st))
           (registered es) (registered es')"
    "trace w' = trace ?w1 @ map CallResetAvailability (registered es)"
    by blast
  have "r' = fst (routeResetAvailability X r (streams w))"
    by (simp add: rr)
  then have "\<exists>st. r' = fst (routeResetAvailability X r st)" by blast
  then show ?case
    using IH by (simp add: e rr)
qed

subsection \<open>The calls made by the enable and disable passes\<close>



subsection \<open>Assignment into the registry\<close>

lemma map_of_assign: "map_of (assign key v es) = (map_of es)(key \<mapsto> v)"
  by (induction es) (auto simp: fun_eq_iff)

lemma keys_assign: "fst ` set (assign key v es) = insert key (fst ` set es)"
  by (induction key v es rule: assign.induct) (auto simp: image_iff)

lemma sorted_assign:
  "sorted (map fst es) \<Longrightarrow> distinct (map fst es) \<Longrightarrow>
   sorted (map fst (assign key v es)) \<and> distinct (map fst (assign key v es))"
proof (induction es)
  case Nil
  then show ?case by simp
next
  case (Cons e es)
  obtain k x where e: "e = (k, x)" by (cases e)
  show ?case
  proof (cases "key = k")
    case True
    with Cons.prems show ?thesis by (simp add: e)
  next
    case False
    show ?thesis
    proof (cases "key < k")
      case True
      with Cons.prems show ?thesis by (auto simp: e)
    next
      case nl: False
      with False have "k < key" by simp
      with Cons show ?thesis using False nl
        by (auto simp: e keys_assign)
    qed
  qed
qed

lemma registry_ok_assign: "registry_ok es \<Longrightarrow> registry_ok (assign key v es)"
  using sorted_assign by (simp add: registry_ok_def)

subsection \<open>The availability reset as a whole\<close>

lemma resetAvailability_total:
  assumes "\<forall>e \<in> set (routes c). snd e \<noteq> None"
  shows "\<exists>c' w'. resetAvailability X c w = Inr (c', w')
     \<and> mRoutes c' = (\<lambda>dir. RouteMasks_reset (mRoutes c dir))
     \<and> since w w' = map CallResetAvailability (registered (routes c))
     \<and> map fst (routes c') = map fst (routes c)
     \<and> (\<forall>e \<in> set (routes c'). snd e \<noteq> None)
     \<and> list_all2 (\<lambda>r r'. \<exists>st. r' = fst (routeResetAvailability X r st))
           (registered (routes c)) (registered (routes c'))
     \<and> mOrderedStreamList c' = mOrderedStreamList c"
proof -
  from resetAvailabilityLoop_total [OF assms, of X w]
  obtain es' w' where L: "resetAvailabilityLoop X (routes c) w = Inr (es', w')"
    "map fst es' = map fst (routes c)" "\<forall>e \<in> set es'. snd e \<noteq> None"
    "list_all2 (\<lambda>r r'. \<exists>st. r' = fst (routeResetAvailability X r st))
           (registered (routes c)) (registered es')"
    "trace w' = trace w @ map CallResetAvailability (registered (routes c))"
    by blast
  have "since w w' = map CallResetAvailability (registered (routes c))"
    using L(5) by (rule since_append)
  then show ?thesis
    using L(1-4) by (simp add: resetAvailability_def)
qed

subsection \<open>The scan of the stream list\<close>


lemma scan_hit:
  "candidate X rt (streams w) a \<Longrightarrow>
   setStreamForRouteLoop X rt (Some a # ps) w = Inr (offer X rt a w)"
  by (auto simp: candidate_def offer_def split: prod.splits)


lemma scan_find:
  "None \<notin> set ps \<Longrightarrow>
   setStreamForRouteLoop X rt ps w =
     (case find (candidate X rt (streams w)) (map the ps) of
        None \<Rightarrow> Inr (False, rt, w)
      | Some a \<Rightarrow> Inr (offer X rt a w))"
proof (induction ps)
  case Nil
  then show ?case by simp
next
  case (Cons p ps)
  then obtain a where p: "p = Some a" by (cases p) auto
  show ?case
  proof (cases "candidate X rt (streams w) a")
    case True
    then show ?thesis using scan_hit [OF True] by (simp add: p)
  next
    case False
    with Cons show ?thesis by (auto simp: p candidate_def)
  qed
qed

lemma scan_total:
  assumes "None \<notin> set ps"
  shows "\<exists>r. setStreamForRouteLoop X rt ps w = Inr r"
proof (cases "find (candidate X rt (streams w)) (map the ps)")
  case None
  then have "setStreamForRouteLoop X rt ps w = Inr (False, rt, w)"
    using scan_find [OF assms, of X rt w] by simp
  then show ?thesis by blast
next
  case (Some a)
  then have "setStreamForRouteLoop X rt ps w = Inr (offer X rt a w)"
    using scan_find [OF assms, of X rt w] by simp
  then show ?thesis by blast
qed

lemma offer_trace:
  "offer X rt a w = (ok, rt', w') \<Longrightarrow>
   trace w' = trace w @ [LogVerbose (''setStreamForRoute: route '' @ getName rt @ '' is maching with the stream''),
               CallSetStream rt a ok]"
  by (auto simp: offer_def split: prod.splits)

lemma scan_trace:
  "setStreamForRouteLoop X rt ps w = Inr (ok, rt', w') \<Longrightarrow>
   \<exists>tr. trace w' = trace w @ tr
     \<and> (setStreamCalls tr = [] \<or> (\<exists>a. Some a \<in> set ps \<and> setStreamCalls tr = [(rt, a)]))"
proof (induction X rt ps w rule: setStreamForRouteLoop.induct)
  case (1 X rt w)
  then show ?case by simp
next
  case (2 X rt ps w)
  then show ?case by simp
next
  case (3 X rt a ps w)
  show ?case
  proof (cases "candidate X rt (streams w) a")
    case True
    from "3.prems" scan_hit [OF True, of ps] have "offer X rt a w = (ok, rt', w')" by simp
    from offer_trace [OF this] show ?thesis by auto
  next
    case False
    with 3 show ?thesis by (auto simp: candidate_def split: if_splits)
  qed
qed

subsection \<open>The match phase only adds bits to the masks\<close>

lemma subMask_refl [simp]: "subMask a a"
  by (simp add: subMask_def)

lemma subMask_or [simp]: "subMask a (a OR b)"
  by (simp add: subMask_def or.assoc [symmetric])

lemma subMask_trans: "subMask a b \<Longrightarrow> subMask b c \<Longrightarrow> subMask a c"
  by (metis subMask_def or.assoc)

lemma subMask_bits: "subMask a b \<longleftrightarrow> (\<forall>n. bit a n \<longrightarrow> bit b n)"
proof
  assume "subMask a b"
  then have "a OR b = b" by (simp add: subMask_def)
  then have "\<And>n. bit (a OR b) n = bit b n" by simp
  then have "\<And>n. (bit a n \<or> bit b n) = bit b n" by (simp add: bit_or_iff)
  then show "\<forall>n. bit a n \<longrightarrow> bit b n" by blast
next
  assume "\<forall>n. bit a n \<longrightarrow> bit b n"
  then have "\<And>n. bit (a OR b) n = bit b n" by (auto simp: bit_or_iff)
  then have "a OR b = b" by (rule bit_eqI)
  then show "subMask a b" by (simp add: subMask_def)
qed

lemma masksGrow_refl [simp]: "masksGrow m m"
  by (simp add: masksGrow_def)

lemma masksGrow_trans: "masksGrow m m' \<Longrightarrow> masksGrow m' m'' \<Longrightarrow> masksGrow m m''"
  unfolding masksGrow_def by (metis subMask_trans)

lemma masksGrow_foldMasks [simp]: "masksGrow m (foldMasks rt m)"
  by (simp add: masksGrow_def foldMasks_def)

lemma prepareRoute_used:
  "prepareRoute X c None m w = Inr (None, m, w)"
  "isUsed rt \<Longrightarrow> prepareRoute X c (Some rt) m w = Inr (Some rt, m, w)"
  by (simp_all add: prepareRoute_def)

lemma prepareRoute_unused:
  "\<not> isUsed rt \<Longrightarrow>
   prepareRoute X c (Some rt) m w =
     (case setStreamForRoute X c rt w of
        Inl f \<Rightarrow> Inl f
      | Inr (ok, rt1, w1) \<Rightarrow>
          if ok then Inr (Some (rt1\<lparr>isUsed := True\<rparr>), foldMasks rt1 m, w1)
          else Inr (Some rt1, m, w1))"
  by (auto simp: prepareRoute_def setUsed_def foldMasks_def Let_def setEnabledRoute_def
      setNeedReflowRoute_def setNeedRepathRoute_def setBit_def fun_eq_iff
      split: sum.splits prod.splits)

lemma prepareRoute_step:
  assumes "prepareRoute X c p m w = Inr (p', m', w')"
  shows "masksGrow m m'
     \<and> (p = None \<longleftrightarrow> p' = None)
     \<and> (\<exists>tr. trace w' = trace w @ tr
           \<and> subseq (map fst (setStreamCalls tr))
                 (filter (\<lambda>r. \<not> isUsed r) (registered [(k, p)])))"
proof (cases p)
  case None
  with assms show ?thesis by (simp add: prepareRoute_used)
next
  case (Some rt)
  show ?thesis
  proof (cases "isUsed rt")
    case True
    with assms Some show ?thesis by (simp add: prepareRoute_used)
  next
    case False
    from assms Some False obtain ok rt1 w1 where
      s: "setStreamForRoute X c rt w = Inr (ok, rt1, w1)"
      by (auto simp: prepareRoute_unused split: sum.splits)
    from scan_trace [OF s [unfolded setStreamForRoute_def]] obtain tr where
      tr: "trace w1 = trace w @ tr"
        "setStreamCalls tr = [] \<or> (\<exists>a. setStreamCalls tr = [(rt, a)])"
      by blast
    have w': "w' = w1" and m': "m' = (if ok then foldMasks rt1 m else m)"
      and p': "p' \<noteq> None"
      using assms Some False s by (auto simp: prepareRoute_unused split: if_splits)
    have "subseq (map fst (setStreamCalls tr)) [rt]"
      using tr(2) by auto
    then show ?thesis
      using tr(1) Some False w' m' p' by auto
  qed
qed

lemma prepareRoutingLoop_props:
  "prepareRoutingLoop X c es m w = Inr (es', m', w') \<Longrightarrow>
   masksGrow m m'
   \<and> map fst es' = map fst es
   \<and> (\<exists>tr. trace w' = trace w @ tr
         \<and> subseq (map fst (setStreamCalls tr))
               (filter (\<lambda>r. \<not> isUsed r) (registered es)))"
proof (induction es arbitrary: m w es' m' w')
  case Nil
  then show ?case by simp
next
  case (Cons e es)
  obtain k p where e: "e = (k, p)" by (cases e)
  from Cons.prems obtain p1 m1 w1 es1 where
    st: "prepareRoute X c p m w = Inr (p1, m1, w1)"
    and lp: "prepareRoutingLoop X c es m1 w1 = Inr (es1, m', w')"
    and es': "es' = (k, p1) # es1"
    by (auto simp: e split: sum.splits)
  from prepareRoute_step [OF st, of k] obtain tr1 where
    1: "masksGrow m m1" "trace w1 = trace w @ tr1"
      "subseq (map fst (setStreamCalls tr1)) (filter (\<lambda>r. \<not> isUsed r) (registered [(k, p)]))"
    by blast
  from Cons.IH [OF lp] obtain tr2 where
    2: "masksGrow m1 m'" "map fst es1 = map fst es" "trace w' = trace w1 @ tr2"
      "subseq (map fst (setStreamCalls tr2)) (filter (\<lambda>r. \<not> isUsed r) (registered es))"
    by blast
  have reg: "registered ((k, p) # es) = registered [(k, p)] @ registered es"
    by (cases p) simp_all
  have "subseq (map fst (setStreamCalls (tr1 @ tr2)))
          (filter (\<lambda>r. \<not> isUsed r) (registered ((k, p) # es)))"
    unfolding reg using 1(3) 2(4) by (simp add: list_emb_append_mono)
  moreover have "trace w' = trace w @ (tr1 @ tr2)"
    using 1(2) 2(3) by simp
  ultimately show ?case
    unfolding e es' using masksGrow_trans [OF 1(1) 2(1)] 2(2)
    by (intro conjI exI [of _ "tr1 @ tr2"]) simp_all
qed

lemma prepareRoute_total:
  "\<forall>d. None \<notin> set (mOrderedStreamList c d) \<Longrightarrow> \<exists>r. prepareRoute X c p m w = Inr r"
proof (cases p)
  case None
  then show ?thesis by (simp add: prepareRoute_used)
next
  case (Some rt)
  assume a: "\<forall>d. None \<notin> set (mOrderedStreamList c d)"
  then obtain r where "setStreamForRoute X c rt w = Inr r"
    using scan_total [of "mOrderedStreamList c (dirOf (isOut rt))" X rt w]
    by (auto simp: setStreamForRoute_def)
  then show ?thesis
    using Some by (cases "isUsed rt") (auto simp: prepareRoute_used prepareRoute_unused split: prod.splits)
qed

lemma prepareRoutingLoop_total:
  "\<forall>d. None \<notin> set (mOrderedStreamList c d) \<Longrightarrow> \<exists>r. prepareRoutingLoop X c es m w = Inr r"
proof (induction es arbitrary: m w)
  case Nil
  then show ?case by simp
next
  case (Cons e es)
  obtain k p where e: "e = (k, p)" by (cases e)
  from prepareRoute_total [OF Cons.prems] obtain p1 m1 w1 where
    "prepareRoute X c p m w = Inr (p1, m1, w1)" by (metis prod_cases3)
  moreover from Cons.IH [OF Cons.prems] obtain r where
    "prepareRoutingLoop X c es m1 w1 = Inr r" by blast
  ultimately show ?case by (auto simp: e split: prod.splits)
qed


subsection \<open>The match phase, entry by entry\<close>

lemma prepareRoute_lists:
  assumes "mOrderedStreamList c2 = mOrderedStreamList c"
  shows "prepareRoute X c2 p m w = prepareRoute X c p m w"
proof (cases p)
  case None
  then show ?thesis by (simp add: prepareRoute_used)
next
  case (Some rt)
  have s: "setStreamForRoute X c2 rt w = setStreamForRoute X c rt w"
    by (simp add: setStreamForRoute_def assms)
  show ?thesis
    by (cases "isUsed rt") (simp_all add: Some prepareRoute_used prepareRoute_unused s)
qed

lemma prepareRoutingLoop_lists:
  assumes "mOrderedStreamList c2 = mOrderedStreamList c"
  shows "prepareRoutingLoop X c2 es m w = prepareRoutingLoop X c es m w"
proof (induction es arbitrary: m w)
  case Nil
  show ?case by simp
next
  case (Cons e es)
  obtain k p where e: "e = (k, p)" by (cases e)
  have st: "prepareRoute X c2 p m w = prepareRoute X c p m w"
    using assms by (rule prepareRoute_lists)
  show ?case
  proof (cases "prepareRoute X c p m w")
    case (Inl f)
    then show ?thesis by (simp add: e st)
  next
    case (Inr r)
    obtain p' m' w' where r: "r = (p', m', w')" by (cases r)
    show ?thesis by (simp add: e st Inr r Cons.IH)
  qed
qed


lemma prepareRouting_Nil:
  "routes c = [] \<Longrightarrow> prepareRouting X c w = Inr (c, w)"
  by (simp add: prepareRouting_def)

lemma prepareRouting_Cons:
  assumes "routes c = (k, p) # es"
  shows "prepareRouting X c w =
     (case prepareRoute X c p (mRoutes c) w of
        Inl f \<Rightarrow> Inl f
      | Inr (p', m', w1) \<Rightarrow>
          (case prepareRouting X (c\<lparr>routes := es, mRoutes := m'\<rparr>) w1 of
             Inl f \<Rightarrow> Inl f
           | Inr (c2, w2) \<Rightarrow> Inr (c2\<lparr>routes := (k, p') # routes c2\<rparr>, w2)))"
proof (cases "prepareRoute X c p (mRoutes c) w")
  case (Inl f)
  then show ?thesis by (simp add: prepareRouting_def assms)
next
  case (Inr r)
  obtain p' m' w1 where r: "r = (p', m', w1)" by (cases r)
  have l: "prepareRoutingLoop X (c\<lparr>routes := es, mRoutes := m'\<rparr>) es m' w1
           = prepareRoutingLoop X c es m' w1"
    by (rule prepareRoutingLoop_lists) simp
  show ?thesis
  proof (cases "prepareRoutingLoop X c es m' w1")
    case (Inl f)
    then show ?thesis by (simp add: prepareRouting_def assms Inr r l)
  next
    case inner: (Inr q)
    obtain es' m'' w'' where q: "q = (es', m'', w'')" by (cases q)
    show ?thesis by (simp add: prepareRouting_def assms Inr r l inner q)
  qed
qed

lemma prepareRouting_unfold:
  "prepareRouting X c w =
     (case routes c of
        [] \<Rightarrow> Inr (c, w)
      | (k, p) # es \<Rightarrow>
          (case prepareRoute X c p (mRoutes c) w of
             Inl f \<Rightarrow> Inl f
           | Inr (p', m', w1) \<Rightarrow>
               (case prepareRouting X (c\<lparr>routes := es, mRoutes := m'\<rparr>) w1 of
                  Inl f \<Rightarrow> Inl f
                | Inr (c2, w2) \<Rightarrow> Inr (c2\<lparr>routes := (k, p') # routes c2\<rparr>, w2))))"
proof (cases "routes c")
  case Nil
  then show ?thesis by (simp add: prepareRouting_Nil)
next
  case (Cons e es)
  obtain k p where e: "e = (k, p)" by (cases e)
  show ?thesis
    using prepareRouting_Cons [of c k p es X w] by (simp add: Cons e)
qed

subsection \<open>Subsequences and evaluation\<close>

lemma subseq_distinct:
  "subseq xs ys \<Longrightarrow> distinct ys \<Longrightarrow> distinct xs"
  by (induction rule: list_emb.induct) (auto dest: list_emb_set)

lemmas run_defs =
  prepareRouting_def prepareRoute_def setStreamForRoute_def eligible_def dirOf_def emit_def
  setUsed_def setEnabledRoute_def setNeedReflowRoute_def setNeedRepathRoute_def setBit_def
  demoX_def refusingX_def demoWorld_def demoStreams_def mkStream_def mkRoute_def demoMasks_def
  since_def candidate_def firstMatch_def offer_def foldMasks_def subMask_def

subsection \<open>The order of the stream lists\<close>

lemma addStream_list:
  "mOrderedStreamList (addStream st a c) d =
     (if d = dirOf (streamIsOut (st a))
      then (if isDirect (st a) then Some a # mOrderedStreamList c d
            else mOrderedStreamList c d @ [Some a])
      else mOrderedStreamList c d)"
  by (simp add: addStream_def Let_def)

lemma addStreams_mem:
  "Some x \<in> set (mOrderedStreamList c d) \<Longrightarrow>
   Some x \<in> set (mOrderedStreamList (fold (addStream st) as c) d)"
proof (induction as arbitrary: c)
  case Nil
  then show ?case by simp
next
  case (Cons a as)
  have "Some x \<in> set (mOrderedStreamList (addStream st a c) d)"
    using Cons.prems by (auto simp: addStream_list)
  from Cons.IH [OF this] show ?case by simp
qed

lemma addStream_order:
  assumes "\<not> isDirect (st nd)" "before_in d nd (mOrderedStreamList c dir)"
  shows "before_in d nd (mOrderedStreamList (addStream st x c) dir)"
proof -
  from assms(2) obtain xs ys where
    l: "mOrderedStreamList c dir = xs @ Some d # ys" "Some nd \<notin> set xs" "Some nd \<in> set ys"
    by (auto simp: before_in_def)
  show ?thesis
  proof (cases "dir = dirOf (streamIsOut (st x))")
    case False
    then show ?thesis using assms(2) by (simp add: addStream_list)
  next
    case True
    show ?thesis
    proof (cases "isDirect (st x)")
      case True
      with assms(1) have "x \<noteq> nd" by auto
      then have "mOrderedStreamList (addStream st x c) dir = (Some x # xs) @ Some d # ys
          \<and> Some nd \<notin> set (Some x # xs) \<and> Some nd \<in> set ys"
        using l True \<open>dir = dirOf (streamIsOut (st x))\<close> by (simp add: addStream_list)
      then show ?thesis unfolding before_in_def by blast
    next
      case False
      then have "mOrderedStreamList (addStream st x c) dir = xs @ Some d # (ys @ [Some x])
          \<and> Some nd \<notin> set xs \<and> Some nd \<in> set (ys @ [Some x])"
        using l \<open>dir = dirOf (streamIsOut (st x))\<close> by (simp add: addStream_list)
      then show ?thesis unfolding before_in_def by blast
    qed
  qed
qed

lemma addStreams_order:
  "\<not> isDirect (st nd) \<Longrightarrow> before_in d nd (mOrderedStreamList c dir) \<Longrightarrow>
   before_in d nd (mOrderedStreamList (fold (addStream st) as c) dir)"
  by (induction as arbitrary: c) (simp_all add: addStream_order)

lemma addStreams_direct_after:
  assumes "\<not> isDirect (st nd)" "isDirect (st d)" "streamIsOut (st nd) = streamIsOut (st d)"
  shows "before_in d nd
           (mOrderedStreamList (fold (addStream st) (before @ nd # mid @ d # after) c)
              (dirOf (streamIsOut (st d))))"
proof -
  let ?dir = "dirOf (streamIsOut (st d))"
  let ?c2 = "addStream st nd (fold (addStream st) before c)"
  let ?c3 = "fold (addStream st) mid ?c2"
  have "Some nd \<in> set (mOrderedStreamList ?c2 ?dir)"
    using assms by (simp add: addStream_list)
  then have m: "Some nd \<in> set (mOrderedStreamList ?c3 ?dir)"
    by (rule addStreams_mem)
  have "mOrderedStreamList (addStream st d ?c3) ?dir = [] @ Some d # mOrderedStreamList ?c3 ?dir"
    using assms(2) by (simp add: addStream_list)
  with m have "mOrderedStreamList (addStream st d ?c3) ?dir
        = [] @ Some d # mOrderedStreamList ?c3 ?dir
      \<and> Some nd \<notin> set [] \<and> Some nd \<in> set (mOrderedStreamList ?c3 ?dir)"
    by simp
  then have "before_in d nd (mOrderedStreamList (addStream st d ?c3) ?dir)"
    unfolding before_in_def by (intro exI)
  from addStreams_order [where st = st and nd = nd and as = after, OF assms(1) this]
  show ?thesis by simp
qed

lemma scan_upto:
  "candidate X rt (streams w) d \<Longrightarrow>
   setStreamForRouteLoop X rt (xs @ Some d # ys) w = setStreamForRouteLoop X rt (xs @ [Some d]) w"
proof (induction xs)
  case Nil
  then show ?case by (simp only: append_Nil scan_hit)
next
  case (Cons p xs)
  then show ?case by (cases p) simp_all
qed

section \<open>Properties\<close>

text \<open>
  C1. For every direction and every state of the masks, the derived route sets are the
  bitmask formulas of the specification: unmuted = previouslyEnabled AND enabled AND NOT
  needReflow; to mute = (previouslyEnabled AND NOT enabled) OR needReflow; opened =
  previouslyEnabled AND enabled AND NOT needRepath; to disable = (previouslyEnabled AND NOT
  enabled) OR needRepath; and the routing has changed in a direction exactly when
  previouslyEnabled differs from enabled or needReflow or needRepath is not 0. The
  collection reports a change when either direction does.
\<close>

theorem derived_masks_formulas:
  "unmutedRoutes c dir =
     prevEnabled (mRoutes c dir) AND enabled (mRoutes c dir) AND NOT (needReflow (mRoutes c dir))
   \<and> routesToMute c dir =
     (prevEnabled (mRoutes c dir) AND NOT (enabled (mRoutes c dir))) OR needReflow (mRoutes c dir)
   \<and> openedRoutes c dir =
     prevEnabled (mRoutes c dir) AND enabled (mRoutes c dir) AND NOT (needRepath (mRoutes c dir))
   \<and> routesToDisable c dir =
     (prevEnabled (mRoutes c dir) AND NOT (enabled (mRoutes c dir))) OR needRepath (mRoutes c dir)
   \<and> (RouteMasks_routingHasChanged (mRoutes c dir) \<longleftrightarrow>
        prevEnabled (mRoutes c dir) \<noteq> enabled (mRoutes c dir)
        \<or> needReflow (mRoutes c dir) \<noteq> 0 \<or> needRepath (mRoutes c dir) \<noteq> 0)
   \<and> (routingHasChanged c \<longleftrightarrow>
        RouteMasks_routingHasChanged (mRoutes c Output)
        \<or> RouteMasks_routingHasChanged (mRoutes c Input))"
  by (simp add: unmutedRoutes_def routesToMute_def openedRoutes_def routesToDisable_def
      RouteMasks_unmutedRoutes_def RouteMasks_routesToMute_def RouteMasks_openedRoutes_def
      RouteMasks_routesToDisable_def RouteMasks_routingHasChanged_def routingHasChanged_def
      RouteMasks_getters)

text \<open>With previouslyEnabled = 6, enabled = 3, needReflow = 1 and needRepath = 0.\<close>

theorem derived_masks_formulas_witness:
  "unmutedRoutes masksCollection Output = 2
   \<and> routesToMute masksCollection Output = 5
   \<and> openedRoutes masksCollection Output = 2
   \<and> routesToDisable masksCollection Output = 4
   \<and> RouteMasks_routingHasChanged (mRoutes masksCollection Output)
   \<and> routingHasChanged masksCollection"
  using derived_masks_formulas [of masksCollection Output]
  by (simp add: masksCollection_def emptyCollection_def demoMasks_def)



text \<open>
  C4. When no registry entry is null, \<open>resetAvailability\<close> returns; in each direction
  previouslyEnabled has received the old value of enabled, and enabled, needReflow and
  needRepath are 0; the route's own \<open>resetAvailability\<close> has been called once on each
  registered route, in registry order; the registry has the same keys, none of them null,
  each route being what its own reset returned; the stream lists are untouched.
\<close>

theorem resetAvailability_effect:
  assumes "\<forall>e \<in> set (routes c). snd e \<noteq> None"
  shows "\<exists>c' w'. resetAvailability X c w = Inr (c', w')
     \<and> (\<forall>dir. prevEnabled (mRoutes c' dir) = enabled (mRoutes c dir)
             \<and> enabled (mRoutes c' dir) = 0
             \<and> needReflow (mRoutes c' dir) = 0
             \<and> needRepath (mRoutes c' dir) = 0)
     \<and> resetCalls (since w w') = registered (routes c)
     \<and> map fst (routes c') = map fst (routes c)
     \<and> (\<forall>e \<in> set (routes c'). snd e \<noteq> None)
     \<and> list_all2 (\<lambda>r r'. \<exists>st. r' = fst (routeResetAvailability X r st))
           (registered (routes c)) (registered (routes c'))
     \<and> mOrderedStreamList c' = mOrderedStreamList c"
proof -
  from resetAvailability_total [OF assms, of X w]
  obtain c' w' where R: "resetAvailability X c w = Inr (c', w')"
    "mRoutes c' = (\<lambda>dir. RouteMasks_reset (mRoutes c dir))"
    "since w w' = map CallResetAvailability (registered (routes c))"
    "map fst (routes c') = map fst (routes c)"
    "\<forall>e \<in> set (routes c'). snd e \<noteq> None"
    "list_all2 (\<lambda>r r'. \<exists>st. r' = fst (routeResetAvailability X r st))
           (registered (routes c)) (registered (routes c'))"
    "mOrderedStreamList c' = mOrderedStreamList c"
    by blast
  show ?thesis
    using R by (simp add: RouteMasks_reset_eq)
qed

theorem resetAvailability_effect_witness:
  "None \<notin> snd ` set (routes demoCollection)
   \<and> (\<exists>c' w'. resetAvailability demoX demoCollection demoWorld = Inr (c', w')
        \<and> prevEnabled (mRoutes c' Output) = 3 \<and> enabled (mRoutes c' Output) = 0
        \<and> needReflow (mRoutes c' Output) = 0 \<and> needRepath (mRoutes c' Output) = 0
        \<and> map getName (resetCalls (since demoWorld w')) = [''media'', ''mic'']
        \<and> map fst (routes c') = [''media_Playback'', ''mic_Capture''])"
proof -
  have h: "\<forall>e \<in> set (routes demoCollection). snd e \<noteq> None"
    by (simp add: demoCollection_def)
  from resetAvailability_effect [OF h, of demoX demoWorld]
  show ?thesis
    by (auto simp: demoCollection_def demoMasks_def mkRoute_def)
qed

text \<open>
  C5, as the code has it. \<open>reset\<close> copies enabled into previouslyEnabled before it zeroes
  the three current-cycle masks. So after one \<open>resetAvailability\<close> previouslyEnabled holds
  the old enabled, after two in a row all four masks of every direction are 0, and the
  masks after two calls are those after one call exactly when enabled was 0 in every
  direction to begin with.
\<close>

theorem reset_twice:
  assumes "\<forall>e \<in> set (routes c). snd e \<noteq> None"
  shows "\<exists>c1 w1 c2 w2.
           resetAvailability X c w = Inr (c1, w1)
         \<and> resetAvailability X c1 w1 = Inr (c2, w2)
         \<and> (\<forall>dir. mRoutes c1 dir =
               \<lparr>needReflow = 0, needRepath = 0, enabled = 0,
                prevEnabled = enabled (mRoutes c dir)\<rparr>)
         \<and> (\<forall>dir. mRoutes c2 dir =
               \<lparr>needReflow = 0, needRepath = 0, enabled = 0, prevEnabled = 0\<rparr>)
         \<and> (mRoutes c2 = mRoutes c1 \<longleftrightarrow> (\<forall>dir. enabled (mRoutes c dir) = 0))"
proof -
  from resetAvailability_total [OF assms, of X w]
  obtain c1 w1 where 1: "resetAvailability X c w = Inr (c1, w1)"
    "mRoutes c1 = (\<lambda>dir. RouteMasks_reset (mRoutes c dir))"
    "\<forall>e \<in> set (routes c1). snd e \<noteq> None"
    by blast
  from resetAvailability_total [OF 1(3), of X w1]
  obtain c2 w2 where 2: "resetAvailability X c1 w1 = Inr (c2, w2)"
    "mRoutes c2 = (\<lambda>dir. RouteMasks_reset (mRoutes c1 dir))"
    by blast
  have "(\<forall>dir. mRoutes c1 dir =
               \<lparr>needReflow = 0, needRepath = 0, enabled = 0,
                prevEnabled = enabled (mRoutes c dir)\<rparr>)
         \<and> (\<forall>dir. mRoutes c2 dir =
               \<lparr>needReflow = 0, needRepath = 0, enabled = 0, prevEnabled = 0\<rparr>)
         \<and> (mRoutes c2 = mRoutes c1 \<longleftrightarrow> (\<forall>dir. enabled (mRoutes c dir) = 0))"
    by (simp add: 1(2) 2(2) RouteMasks_reset_eq fun_eq_iff)
  with 1(1) 2(1) show ?thesis by blast
qed

theorem reset_twice_witness:
  "None \<notin> snd ` set (routes demoCollection)
   \<and> (\<exists>c1 w1 c2 w2.
           resetAvailability demoX demoCollection demoWorld = Inr (c1, w1)
         \<and> resetAvailability demoX c1 w1 = Inr (c2, w2)
         \<and> prevEnabled (mRoutes c1 Output) = 3
         \<and> prevEnabled (mRoutes c2 Output) = 0
         \<and> mRoutes c2 \<noteq> mRoutes c1)"
proof -
  have h: "\<forall>e \<in> set (routes demoCollection). snd e \<noteq> None"
    by (simp add: demoCollection_def)
  have e: "enabled (mRoutes demoCollection Output) = 3"
    by (simp add: demoCollection_def demoMasks_def)
  from reset_twice [OF h, of demoX demoWorld]
  obtain c1 w1 c2 w2 where R:
    "resetAvailability demoX demoCollection demoWorld = Inr (c1, w1)"
    "resetAvailability demoX c1 w1 = Inr (c2, w2)"
    "\<forall>dir. mRoutes c1 dir =
        \<lparr>needReflow = 0, needRepath = 0, enabled = 0,
         prevEnabled = enabled (mRoutes demoCollection dir)\<rparr>"
    "\<forall>dir. mRoutes c2 dir =
        \<lparr>needReflow = 0, needRepath = 0, enabled = 0, prevEnabled = 0\<rparr>"
    "mRoutes c2 = mRoutes c1 \<longleftrightarrow> (\<forall>dir. enabled (mRoutes demoCollection dir) = 0)"
    by blast
  have "\<not> (\<forall>dir. enabled (mRoutes demoCollection dir) = 0)"
  proof
    assume "\<forall>dir. enabled (mRoutes demoCollection dir) = 0"
    then have "enabled (mRoutes demoCollection Output) = 0" by blast
    with e show False by simp
  qed
  with R(5) have "mRoutes c2 \<noteq> mRoutes c1" by simp
  moreover have "prevEnabled (mRoutes c1 Output) = 3" "prevEnabled (mRoutes c2 Output) = 0"
    using R(3,4) e by simp_all
  moreover have "None \<notin> snd ` set (routes demoCollection)"
    by (simp add: demoCollection_def)
  ultimately show ?thesis
    using R(1,2) by blast
qed

text \<open>
  C5, as the specification words it, fails. From masks with enabled = 3 and
  previouslyEnabled = 6 in every direction, the first \<open>resetAvailability\<close> returns with
  previouslyEnabled = 3, so it does affect previouslyEnabled, and the second returns with
  previouslyEnabled = 0, so two calls do not give the state of one. The same on a single
  \<open>RouteMasks\<close> with enabled = 1 and previouslyEnabled = 0.
\<close>

theorem reset_twice_counterexample:
  "prevEnabled (mRoutes demoCollection Output) = 6
   \<and> \<not> isl (resetAvailability demoX demoCollection demoWorld)
   \<and> prevEnabled
         (mRoutes (fst (projr (resetAvailability demoX demoCollection demoWorld))) Output) = 3
   \<and> \<not> isl (resetAvailability demoX
              (fst (projr (resetAvailability demoX demoCollection demoWorld)))
              (snd (projr (resetAvailability demoX demoCollection demoWorld))))
   \<and> prevEnabled (mRoutes (fst (projr (resetAvailability demoX
              (fst (projr (resetAvailability demoX demoCollection demoWorld)))
              (snd (projr (resetAvailability demoX demoCollection demoWorld)))))) Output) = 0
   \<and> RouteMasks_reset (RouteMasks_reset enabledOnly) \<noteq> RouteMasks_reset enabledOnly
   \<and> prevEnabled (RouteMasks_reset enabledOnly) \<noteq> prevEnabled enabledOnly"
  by (simp add: RouteMasks_reset_def enabledOnly_def resetAvailability_def demoCollection_def
      demoX_def demoMasks_def mkRoute_def emit_def demoWorld_def)

text \<open>
  C6. On a collection whose output stream list is empty, \<open>getVoiceStreamRoute\<close>
  dereferences \<open>begin()\<close>, which is \<open>end()\<close>: it does not return "none" with an error
  logged. On a non-empty list it returns the head, and its error branch is taken only when
  the head is a null pointer stored in the list.
\<close>

theorem getVoiceStreamRoute_empty:
  "getVoiceStreamRoute emptyCollection demoWorld = Inl EndIteratorDereference
   \<and> getVoiceStreamRoute matchCollection demoWorld = Inr (Some 2, demoWorld)
   \<and> getVoiceStreamRoute nullHeadCollection demoWorld =
       Inr (None, demoWorld\<lparr>trace :=
              [LogError ''getVoiceStreamRoute: current stream NOT FOUND for echo ref'']\<rparr>)"
  by (simp add: getVoiceStreamRoute_def emptyCollection_def matchCollection_def
      nullHeadCollection_def emit_def demoWorld_def)

text \<open>
  C7. Adding a route whose key (name and direction suffix) is already in the registry
  returns normally and leaves the collection as it was, the stored route included; the
  only effect is one warning on the trace. Adding a route with a fresh key returns
  normally, logs nothing, and the registry maps that key to the route and every other key
  as before; a sorted registry without duplicate keys stays so.
\<close>

theorem push_back_duplicate_or_fresh:
  "(contains (routes c) (routeKey dup) \<longrightarrow>
      push_back (Some dup) c w =
        Inr (c, w\<lparr>trace := trace w @
                   [LogWarning (''push_back: element('' @ routeKey dup @ '') already added'')]\<rparr>))
   \<and> (\<not> contains (routes c) (routeKey fresh) \<longrightarrow>
      (\<exists>c'. push_back (Some fresh) c w = Inr (c', w)
          \<and> map_of (routes c') = (map_of (routes c))(routeKey fresh \<mapsto> Some fresh)
          \<and> mOrderedStreamList c' = mOrderedStreamList c
          \<and> mRoutes c' = mRoutes c
          \<and> (registry_ok (routes c) \<longrightarrow> registry_ok (routes c'))))"
  by (simp add: push_back_def emit_def map_of_assign registry_ok_assign)

theorem push_back_duplicate_or_fresh_witness:
  "contains (routes demoCollection) (routeKey dupRoute)
   \<and> push_back (Some dupRoute) demoCollection demoWorld =
        Inr (demoCollection,
             demoWorld\<lparr>trace := [LogWarning ''push_back: element(media_Playback) already added'']\<rparr>)
   \<and> \<not> contains (routes demoCollection) (routeKey freshRoute)
   \<and> registry_ok (routes demoCollection)
   \<and> (\<exists>c'. push_back (Some freshRoute) demoCollection demoWorld = Inr (c', demoWorld)
          \<and> map_of (routes c') ''media_Capture'' = Some (Some freshRoute)
          \<and> map_of (routes c') ''media_Playback'' = map_of (routes demoCollection) ''media_Playback''
          \<and> registry_ok (routes c'))"
proof -
  have d: "contains (routes demoCollection) (routeKey dupRoute)"
    by (simp add: demoCollection_def dupRoute_def mkRoute_def routeKey_def contains_def)
  have f: "\<not> contains (routes demoCollection) (routeKey freshRoute)"
    by (simp add: demoCollection_def freshRoute_def mkRoute_def routeKey_def contains_def)
  have ok: "registry_ok (routes demoCollection)"
    by (simp add: demoCollection_def registry_ok_def)
  have k1: "routeKey dupRoute = ''media_Playback''"
    and k2: "routeKey freshRoute = ''media_Capture''"
    by (simp_all add: routeKey_def dupRoute_def freshRoute_def mkRoute_def)
  have tr: "trace demoWorld = []" by (simp add: demoWorld_def)
  from push_back_duplicate_or_fresh [of demoCollection dupRoute demoWorld freshRoute] d f ok
  show ?thesis
    by (auto simp: k1 k2 tr)
qed

text \<open>
  C2. The body of the match phase, for one registry entry: a null entry and a route
  already in use are left alone. For a route not in use (and a stream list without null
  pointers) the route's direction's list is scanned in order and the route is offered, by
  one \<open>setStream\<close> call, to the first stream that is started, routed by policy, without a
  new route available, and matching; if \<open>setStream\<close> succeeds the route is marked used and
  its mask is ORed into enabled of its direction, and into needReflow and needRepath when
  the route flags them; with no such stream nothing changes. The whole phase returns when
  no stream pointer is null, keeps the registry keys, and the receivers of its
  \<open>setStream\<close> calls are, in order, among the routes that were not in use, each taken at
  most once: no route is bound to more than one stream. The phase is that body applied to
  the registry entries in order, each on the masks and the world the previous ones have
  left: on an empty registry it changes nothing, and otherwise it applies the body to the
  first entry, runs on the remaining entries, and puts the resulting first entry back in
  front; the routes and masks it returns are those the bodies have produced.
\<close>

theorem match_phase:
  "prepareRoute X c None m w = Inr (None, m, w)
   \<and> (isUsed busy \<longrightarrow> prepareRoute X c (Some busy) m w = Inr (Some busy, m, w))
   \<and> (\<not> isUsed rt \<and> None \<notin> set (mOrderedStreamList c (dirOf (isOut rt))) \<longrightarrow>
        prepareRoute X c (Some rt) m w =
          (case firstMatch X rt (streams w) (mOrderedStreamList c (dirOf (isOut rt))) of
             None \<Rightarrow> Inr (Some rt, m, w)
           | Some a \<Rightarrow>
               (case offer X rt a w of (ok, rt1, w1) \<Rightarrow>
                  if ok then Inr (Some (rt1\<lparr>isUsed := True\<rparr>), foldMasks rt1 m, w1)
                  else Inr (Some rt1, m, w1))))
   \<and> ((\<forall>d. None \<notin> set (mOrderedStreamList c d)) \<longrightarrow>
        (\<exists>c' w'. prepareRouting X c w = Inr (c', w')))
   \<and> (prepareRouting X c w = Inr (c', w') \<longrightarrow>
        map fst (routes c') = map fst (routes c)
        \<and> subseq (map fst (setStreamCalls (since w w')))
             (filter (\<lambda>r. \<not> isUsed r) (registered (routes c)))
        \<and> (distinct (registered (routes c)) \<longrightarrow>
             distinct (map fst (setStreamCalls (since w w')))))
   \<and> prepareRouting X c w =
       (case routes c of
          [] \<Rightarrow> Inr (c, w)
        | (k, p) # es \<Rightarrow>
            (case prepareRoute X c p (mRoutes c) w of
               Inl f \<Rightarrow> Inl f
             | Inr (p', m', w1) \<Rightarrow>
                 (case prepareRouting X (c\<lparr>routes := es, mRoutes := m'\<rparr>) w1 of
                    Inl f \<Rightarrow> Inl f
                  | Inr (c2, w2) \<Rightarrow> Inr (c2\<lparr>routes := (k, p') # routes c2\<rparr>, w2))))"
proof (intro conjI impI)
  show "prepareRoute X c None m w = Inr (None, m, w)"
    by (rule prepareRoute_used)
next
  show "prepareRouting X c w =
       (case routes c of
          [] \<Rightarrow> Inr (c, w)
        | (k, p) # es \<Rightarrow>
            (case prepareRoute X c p (mRoutes c) w of
               Inl f \<Rightarrow> Inl f
             | Inr (p', m', w1) \<Rightarrow>
                 (case prepareRouting X (c\<lparr>routes := es, mRoutes := m'\<rparr>) w1 of
                    Inl f \<Rightarrow> Inl f
                  | Inr (c2, w2) \<Rightarrow> Inr (c2\<lparr>routes := (k, p') # routes c2\<rparr>, w2))))"
    by (rule prepareRouting_unfold)
next
  assume "isUsed busy"
  then show "prepareRoute X c (Some busy) m w = Inr (Some busy, m, w)"
    by (rule prepareRoute_used)
next
  assume a: "\<not> isUsed rt \<and> None \<notin> set (mOrderedStreamList c (dirOf (isOut rt)))"
  then have "setStreamForRoute X c rt w =
      (case firstMatch X rt (streams w) (mOrderedStreamList c (dirOf (isOut rt))) of
         None \<Rightarrow> Inr (False, rt, w) | Some a \<Rightarrow> Inr (offer X rt a w))"
    by (simp add: setStreamForRoute_def firstMatch_def scan_find)
  with a show "prepareRoute X c (Some rt) m w =
          (case firstMatch X rt (streams w) (mOrderedStreamList c (dirOf (isOut rt))) of
             None \<Rightarrow> Inr (Some rt, m, w)
           | Some a \<Rightarrow>
               (case offer X rt a w of (ok, rt1, w1) \<Rightarrow>
                  if ok then Inr (Some (rt1\<lparr>isUsed := True\<rparr>), foldMasks rt1 m, w1)
                  else Inr (Some rt1, m, w1)))"
    by (simp add: prepareRoute_unused split: option.splits prod.splits)
next
  assume "\<forall>d. None \<notin> set (mOrderedStreamList c d)"
  from prepareRoutingLoop_total [OF this, of X "routes c" "mRoutes c" w]
  show "\<exists>c' w'. prepareRouting X c w = Inr (c', w')"
    by (auto simp: prepareRouting_def)
next
  assume r: "prepareRouting X c w = Inr (c', w')"
  then obtain es' m' where
    lp: "prepareRoutingLoop X c (routes c) (mRoutes c) w = Inr (es', m', w')"
    and c': "c' = c\<lparr>routes := es', mRoutes := m'\<rparr>"
    by (auto simp: prepareRouting_def split: sum.splits)
  from prepareRoutingLoop_props [OF lp] obtain tr where
    p: "map fst es' = map fst (routes c)" "trace w' = trace w @ tr"
       "subseq (map fst (setStreamCalls tr)) (filter (\<lambda>r. \<not> isUsed r) (registered (routes c)))"
    by blast
  have s: "since w w' = tr" using p(2) by (rule since_append)
  show "map fst (routes c') = map fst (routes c)"
    using p(1) c' by simp
  show sub: "subseq (map fst (setStreamCalls (since w w')))
             (filter (\<lambda>r. \<not> isUsed r) (registered (routes c)))"
    using p(3) s by simp
  assume "distinct (registered (routes c))"
  then have "distinct (filter (\<lambda>r. \<not> isUsed r) (registered (routes c)))"
    by simp
  with sub show "distinct (map fst (setStreamCalls (since w w')))"
    by (rule subseq_distinct)
qed

text \<open>
  The media route gets the direct stream 2, the first of the output list; the mic route
  gets the input stream 3; the voice route, in use, is skipped.
\<close>

theorem match_phase_witness:
  "isUsed (mkRoute ''voice'' True 16 True False)
   \<and> prepareRoute demoX matchCollection (Some (mkRoute ''voice'' True 16 True False))
         (mRoutes matchCollection) demoWorld
       = Inr (Some (mkRoute ''voice'' True 16 True False), mRoutes matchCollection, demoWorld)
   \<and> \<not> isUsed (mkRoute ''media'' True 4 False False)
   \<and> None \<notin> set (mOrderedStreamList matchCollection Output)
   \<and> None \<notin> set (mOrderedStreamList matchCollection Input)
   \<and> firstMatch demoX (mkRoute ''media'' True 4 False False) (streams demoWorld)
         (mOrderedStreamList matchCollection Output) = Some 2
   \<and> (\<exists>m' w'. prepareRoute demoX matchCollection (Some (mkRoute ''media'' True 4 False False))
                  (mRoutes matchCollection) demoWorld
                = Inr (Some (mkRoute ''media'' True 4 True False), m', w')
         \<and> enabled (m' Output) = 7 \<and> enabled (m' Input) = 3
         \<and> setStreamCalls (since demoWorld w') = [(mkRoute ''media'' True 4 False False, 2)])
   \<and> distinct (registered (routes matchCollection))
   \<and> (\<exists>c' w'. prepareRouting demoX matchCollection demoWorld = Inr (c', w')
         \<and> map fst (routes c') = [''media_Playback'', ''mic_Capture'', ''voice_Playback'']
         \<and> map (\<lambda>(r, a). (getName r, a)) (setStreamCalls (since demoWorld w'))
             = [(''media'', 2), (''mic'', 3)]
         \<and> distinct (map fst (setStreamCalls (since demoWorld w')))
         \<and> routes c' =
             [(''media_Playback'', Some (mkRoute ''media'' True 4 True False)),
              (''mic_Capture'',
               Some ((mkRoute ''mic'' False 8 True False)\<lparr>routeNeedReflow := True\<rparr>)),
              (''voice_Playback'', Some (mkRoute ''voice'' True 16 True False))]
         \<and> mRoutes c' Output =
             \<lparr>needReflow = 1, needRepath = 0, enabled = 7, prevEnabled = 6\<rparr>
         \<and> mRoutes c' Input =
             \<lparr>needReflow = 9, needRepath = 0, enabled = 11, prevEnabled = 6\<rparr>
         \<and> mOrderedStreamList c' = mOrderedStreamList matchCollection
         \<and> isNewRouteAvailable (streams w' 2) \<and> isNewRouteAvailable (streams w' 3)
         \<and> \<not> isNewRouteAvailable (streams w' 1))"
proof -
  let ?voice = "mkRoute ''voice'' True 16 True False"
  let ?media = "mkRoute ''media'' True 4 False False"
  have u: "isUsed ?voice" and n: "\<not> isUsed ?media"
    by (simp_all add: mkRoute_def)
  have o: "None \<notin> set (mOrderedStreamList matchCollection Output)"
    and i: "None \<notin> set (mOrderedStreamList matchCollection Input)"
    by (simp_all add: matchCollection_def)
  have all: "\<forall>d. None \<notin> set (mOrderedStreamList matchCollection d)"
    using o i by (metis Direction.exhaust)
  have dir: "dirOf (isOut ?media) = Output"
    by (simp add: mkRoute_def dirOf_def)
  have fm: "firstMatch demoX ?media (streams demoWorld)
              (mOrderedStreamList matchCollection Output) = Some 2"
    by (simp add: matchCollection_def run_defs)
  have d: "distinct (registered (routes matchCollection))"
    by (simp add: matchCollection_def mkRoute_def)
  note T = match_phase [of demoX matchCollection "mRoutes matchCollection" demoWorld ?voice ?media]
  from T u have 1: "prepareRoute demoX matchCollection (Some ?voice)
         (mRoutes matchCollection) demoWorld
       = Inr (Some ?voice, mRoutes matchCollection, demoWorld)"
    by blast
  from T n o dir have "prepareRoute demoX matchCollection (Some ?media)
         (mRoutes matchCollection) demoWorld =
          (case firstMatch demoX ?media (streams demoWorld)
                  (mOrderedStreamList matchCollection (dirOf (isOut ?media))) of
             None \<Rightarrow> Inr (Some ?media, mRoutes matchCollection, demoWorld)
           | Some a \<Rightarrow>
               (case offer demoX ?media a demoWorld of (ok, rt1, w1) \<Rightarrow>
                  if ok then Inr (Some (rt1\<lparr>isUsed := True\<rparr>),
                                  foldMasks rt1 (mRoutes matchCollection), w1)
                  else Inr (Some rt1, mRoutes matchCollection, w1)))"
    by simp
  then have 2: "\<exists>m' w'. prepareRoute demoX matchCollection (Some ?media)
                  (mRoutes matchCollection) demoWorld
                = Inr (Some (mkRoute ''media'' True 4 True False), m', w')
         \<and> enabled (m' Output) = 7 \<and> enabled (m' Input) = 3
         \<and> setStreamCalls (since demoWorld w') = [(?media, 2)]"
    unfolding dir fm by (simp add: matchCollection_def run_defs)
  note E = match_phase [THEN conjunct2, THEN conjunct2, THEN conjunct2, THEN conjunct2,
      THEN conjunct2]
  note Pb = match_phase [THEN conjunct2, THEN conjunct1, THEN mp]
  note Pu = match_phase [THEN conjunct2, THEN conjunct2, THEN conjunct1, THEN mp]
  note ev = matchCollection_def mkRoute_def firstMatch_def candidate_def eligible_def
    offer_def foldMasks_def dirOf_def demoX_def demoWorld_def demoStreams_def mkStream_def
    demoMasks_def emit_def
  have "\<exists>c' w'. prepareRouting demoX matchCollection demoWorld = Inr (c', w')
         \<and> routes c' =
             [(''media_Playback'', Some (mkRoute ''media'' True 4 True False)),
              (''mic_Capture'',
               Some ((mkRoute ''mic'' False 8 True False)\<lparr>routeNeedReflow := True\<rparr>)),
              (''voice_Playback'', Some (mkRoute ''voice'' True 16 True False))]
         \<and> mRoutes c' Output =
             \<lparr>needReflow = 1, needRepath = 0, enabled = 7, prevEnabled = 6\<rparr>
         \<and> mRoutes c' Input =
             \<lparr>needReflow = 9, needRepath = 0, enabled = 11, prevEnabled = 6\<rparr>
         \<and> mOrderedStreamList c' = mOrderedStreamList matchCollection
         \<and> isNewRouteAvailable (streams w' 2) \<and> isNewRouteAvailable (streams w' 3)
         \<and> \<not> isNewRouteAvailable (streams w' 1)"
    apply (subst E)
    apply (simp add: ev Pb Pu)
    apply (subst E)
    apply (simp add: ev Pb Pu)
    apply (subst E)
    apply (simp add: ev Pb Pu)
    apply (subst E)
    apply (simp add: ev Pb Pu)
    done
  then obtain c' w' where
    r: "prepareRouting demoX matchCollection demoWorld = Inr (c', w')"
    and v: "routes c' =
             [(''media_Playback'', Some (mkRoute ''media'' True 4 True False)),
              (''mic_Capture'',
               Some ((mkRoute ''mic'' False 8 True False)\<lparr>routeNeedReflow := True\<rparr>)),
              (''voice_Playback'', Some (mkRoute ''voice'' True 16 True False))]"
      "mRoutes c' Output = \<lparr>needReflow = 1, needRepath = 0, enabled = 7, prevEnabled = 6\<rparr>"
      "mRoutes c' Input = \<lparr>needReflow = 9, needRepath = 0, enabled = 11, prevEnabled = 6\<rparr>"
      "mOrderedStreamList c' = mOrderedStreamList matchCollection"
      "isNewRouteAvailable (streams w' 2)" "isNewRouteAvailable (streams w' 3)"
      "\<not> isNewRouteAvailable (streams w' 1)"
    by blast
  from T [of c' w'] r d have 3: "distinct (map fst (setStreamCalls (since demoWorld w')))"
    by blast
  from r have 4: "map fst (routes c') = [''media_Playback'', ''mic_Capture'', ''voice_Playback'']
         \<and> map (\<lambda>(r, a). (getName r, a)) (setStreamCalls (since demoWorld w'))
             = [(''media'', 2), (''mic'', 3)]"
    by (auto simp: matchCollection_def run_defs)
  show ?thesis
    by (intro conjI u 1 n o i fm 2 d exI [of _ c'] exI [of _ w'] r 3
        conjunct1 [OF 4] conjunct2 [OF 4] v)
qed


text \<open>
  C10. \<open>prepareRouting\<close> returns when no stream pointer is null, and whenever it returns,
  in every direction each of enabled, needReflow and needRepath afterwards contains every
  bit it had before (bits are only ORed in), and previouslyEnabled is unchanged.
\<close>

theorem prepareRouting_monotone:
  "((\<forall>d. None \<notin> set (mOrderedStreamList c d)) \<longrightarrow>
      (\<exists>c' w'. prepareRouting X c w = Inr (c', w')))
   \<and> (prepareRouting X c w = Inr (c', w') \<longrightarrow>
        subMask (enabled (mRoutes c dir)) (enabled (mRoutes c' dir))
        \<and> subMask (needReflow (mRoutes c dir)) (needReflow (mRoutes c' dir))
        \<and> subMask (needRepath (mRoutes c dir)) (needRepath (mRoutes c' dir))
        \<and> (\<forall>n. (bit (enabled (mRoutes c dir)) n \<longrightarrow> bit (enabled (mRoutes c' dir)) n)
               \<and> (bit (needReflow (mRoutes c dir)) n \<longrightarrow> bit (needReflow (mRoutes c' dir)) n)
               \<and> (bit (needRepath (mRoutes c dir)) n \<longrightarrow> bit (needRepath (mRoutes c' dir)) n))
        \<and> prevEnabled (mRoutes c' dir) = prevEnabled (mRoutes c dir))"
proof (intro conjI impI)
  assume "\<forall>d. None \<notin> set (mOrderedStreamList c d)"
  from prepareRoutingLoop_total [OF this, of X "routes c" "mRoutes c" w]
  show "\<exists>c' w'. prepareRouting X c w = Inr (c', w')"
    by (auto simp: prepareRouting_def)
next
  assume r: "prepareRouting X c w = Inr (c', w')"
  then obtain es' m' where
    lp: "prepareRoutingLoop X c (routes c) (mRoutes c) w = Inr (es', m', w')"
    and c': "c' = c\<lparr>routes := es', mRoutes := m'\<rparr>"
    by (auto simp: prepareRouting_def split: sum.splits)
  from prepareRoutingLoop_props [OF lp] have "masksGrow (mRoutes c) m'"
    by blast
  then have g: "masksGrow (mRoutes c) (mRoutes c')"
    by (simp add: c')
  show e: "subMask (enabled (mRoutes c dir)) (enabled (mRoutes c' dir))"
    and f: "subMask (needReflow (mRoutes c dir)) (needReflow (mRoutes c' dir))"
    and p: "subMask (needRepath (mRoutes c dir)) (needRepath (mRoutes c' dir))"
    and "prevEnabled (mRoutes c' dir) = prevEnabled (mRoutes c dir)"
    using g by (simp_all add: masksGrow_def)
  show "\<forall>n. (bit (enabled (mRoutes c dir)) n \<longrightarrow> bit (enabled (mRoutes c' dir)) n)
               \<and> (bit (needReflow (mRoutes c dir)) n \<longrightarrow> bit (needReflow (mRoutes c' dir)) n)
               \<and> (bit (needRepath (mRoutes c dir)) n \<longrightarrow> bit (needRepath (mRoutes c' dir)) n)"
    using e f p by (simp add: subMask_bits)
qed

theorem prepareRouting_monotone_witness:
  "None \<notin> set (mOrderedStreamList matchCollection Output)
   \<and> None \<notin> set (mOrderedStreamList matchCollection Input)
   \<and> enabled (mRoutes matchCollection Input) = 3
   \<and> needReflow (mRoutes matchCollection Input) = 1
   \<and> needRepath (mRoutes matchCollection Input) = 0
   \<and> prevEnabled (mRoutes matchCollection Input) = 6
   \<and> (\<exists>c' w'. prepareRouting demoX matchCollection demoWorld = Inr (c', w')
         \<and> enabled (mRoutes c' Input) = 11
         \<and> needReflow (mRoutes c' Input) = 9
         \<and> needRepath (mRoutes c' Input) = 0
         \<and> prevEnabled (mRoutes c' Input) = 6
         \<and> subMask (enabled (mRoutes matchCollection Input)) (enabled (mRoutes c' Input))
         \<and> subMask (needReflow (mRoutes matchCollection Input)) (needReflow (mRoutes c' Input))
         \<and> subMask (needRepath (mRoutes matchCollection Input)) (needRepath (mRoutes c' Input))
         \<and> prevEnabled (mRoutes c' Input) = prevEnabled (mRoutes matchCollection Input))"
proof -
  have o: "None \<notin> set (mOrderedStreamList matchCollection Output)"
    and i: "None \<notin> set (mOrderedStreamList matchCollection Input)"
    by (simp_all add: matchCollection_def)
  have all: "\<forall>d. None \<notin> set (mOrderedStreamList matchCollection d)"
    using o i by (metis Direction.exhaust)
  have b: "enabled (mRoutes matchCollection Input) = 3"
    "needReflow (mRoutes matchCollection Input) = 1"
    "needRepath (mRoutes matchCollection Input) = 0"
    "prevEnabled (mRoutes matchCollection Input) = 6"
    by (simp_all add: matchCollection_def demoMasks_def)
  note T = prepareRouting_monotone [of matchCollection demoX demoWorld]
  from T all obtain c' w' where
    r: "prepareRouting demoX matchCollection demoWorld = Inr (c', w')"
    by blast
  from T [of c' w' Input] r have g:
    "subMask (enabled (mRoutes matchCollection Input)) (enabled (mRoutes c' Input))"
    "subMask (needReflow (mRoutes matchCollection Input)) (needReflow (mRoutes c' Input))"
    "subMask (needRepath (mRoutes matchCollection Input)) (needRepath (mRoutes c' Input))"
    "prevEnabled (mRoutes c' Input) = prevEnabled (mRoutes matchCollection Input)"
    by blast+
  from r have v: "enabled (mRoutes c' Input) = 11" "needReflow (mRoutes c' Input) = 9"
    "needRepath (mRoutes c' Input) = 0" "prevEnabled (mRoutes c' Input) = 6"
    by (auto simp: matchCollection_def run_defs)
  show ?thesis
    by (intro conjI o i b exI [of _ c'] exI [of _ w'] r v g)
qed




text \<open>
  C8. \<open>addStream\<close> puts a direct stream at the front of the list of its direction and a
  non-direct stream at the back. So after any sequence of \<open>addStream\<close> calls in which a
  non-direct stream is added before a direct stream of the same direction, the direct
  stream stands in the list before every occurrence of the non-direct one, and a scan for
  a route of that direction, with the direct stream eligible and matching, never offers
  the route to the non-direct stream: it stops at the direct stream or before.
\<close>

theorem direct_stream_first:
  "(isDirect (st a) \<longrightarrow>
      mOrderedStreamList (addStream st a c) (dirOf (streamIsOut (st a)))
        = Some a # mOrderedStreamList c (dirOf (streamIsOut (st a))))
   \<and> (\<not> isDirect (st a') \<longrightarrow>
      mOrderedStreamList (addStream st a' c) (dirOf (streamIsOut (st a')))
        = mOrderedStreamList c (dirOf (streamIsOut (st a'))) @ [Some a'])
   \<and> (\<not> isDirect (st nd) \<and> isDirect (st d) \<and> streamIsOut (st nd) = streamIsOut (st d) \<longrightarrow>
        (\<exists>xs ys.
            mOrderedStreamList (fold (addStream st) (before @ nd # mid @ d # after) c)
              (dirOf (streamIsOut (st d))) = xs @ Some d # ys
            \<and> Some nd \<notin> set xs \<and> Some nd \<in> set ys)
        \<and> (isOut rt = streamIsOut (st d) \<and> candidate X rt (streams w) d
             \<and> setStreamForRoute X (fold (addStream st) (before @ nd # mid @ d # after) c) rt w
                 = Inr (ok, rt1, w1)
            \<longrightarrow> (rt, nd) \<notin> set (setStreamCalls (since w w1))))"
proof (intro conjI impI)
  assume "isDirect (st a)"
  then show "mOrderedStreamList (addStream st a c) (dirOf (streamIsOut (st a)))
        = Some a # mOrderedStreamList c (dirOf (streamIsOut (st a)))"
    by (simp add: addStream_list)
next
  assume "\<not> isDirect (st a')"
  then show "mOrderedStreamList (addStream st a' c) (dirOf (streamIsOut (st a')))
        = mOrderedStreamList c (dirOf (streamIsOut (st a'))) @ [Some a']"
    by (simp add: addStream_list)
next
  let ?c' = "fold (addStream st) (before @ nd # mid @ d # after) c"
  assume h: "\<not> isDirect (st nd) \<and> isDirect (st d) \<and> streamIsOut (st nd) = streamIsOut (st d)"
  then have b: "before_in d nd (mOrderedStreamList ?c' (dirOf (streamIsOut (st d))))"
    by (intro addStreams_direct_after) simp_all
  then show "\<exists>xs ys. mOrderedStreamList ?c' (dirOf (streamIsOut (st d))) = xs @ Some d # ys
            \<and> Some nd \<notin> set xs \<and> Some nd \<in> set ys"
    by (simp add: before_in_def)
  assume s: "isOut rt = streamIsOut (st d) \<and> candidate X rt (streams w) d
             \<and> setStreamForRoute X ?c' rt w = Inr (ok, rt1, w1)"
  from b obtain xs ys where
    l: "mOrderedStreamList ?c' (dirOf (streamIsOut (st d))) = xs @ Some d # ys"
      "Some nd \<notin> set xs"
    by (auto simp: before_in_def)
  from h have ne: "nd \<noteq> d" by auto
  from s have cand: "candidate X rt (streams w) d" by simp
  from s have io: "isOut rt = streamIsOut (st d)"
    and run: "setStreamForRoute X ?c' rt w = Inr (ok, rt1, w1)" by simp_all
  from run have "setStreamForRouteLoop X rt (xs @ Some d # ys) w = Inr (ok, rt1, w1)"
    unfolding setStreamForRoute_def io l(1) .
  then have "setStreamForRouteLoop X rt (xs @ [Some d]) w = Inr (ok, rt1, w1)"
    by (simp only: scan_upto [OF cand, of xs ys])
  from scan_trace [OF this] obtain tr where
    tr: "trace w1 = trace w @ tr"
      "setStreamCalls tr = [] \<or> (\<exists>a. Some a \<in> set (xs @ [Some d]) \<and> setStreamCalls tr = [(rt, a)])"
    by blast
  have "since w w1 = tr" using tr(1) by (rule since_append)
  with tr(2) l(2) ne show "(rt, nd) \<notin> set (setStreamCalls (since w w1))"
    by auto
qed


theorem direct_stream_first_witness:
  "\<not> isDirect (demoStreams 1) \<and> isDirect (demoStreams 2)
   \<and> streamIsOut (demoStreams 1) = streamIsOut (demoStreams 2)
   \<and> mOrderedStreamList (addStream demoStreams 2 emptyCollection) Output = [Some 2]
   \<and> mOrderedStreamList (addStream demoStreams 1 (addStream demoStreams 2 emptyCollection)) Output
       = [Some 2, Some 1]
   \<and> mOrderedStreamList (fold (addStream demoStreams) [1, 3, 2] emptyCollection) Output
       = [Some 2, Some 1]
   \<and> candidate demoX (mkRoute ''media'' True 4 False False) (streams demoWorld) 1
   \<and> candidate demoX (mkRoute ''media'' True 4 False False) (streams demoWorld) 2
   \<and> (\<exists>ok rt1 w1.
         setStreamForRoute demoX (fold (addStream demoStreams) [1, 3, 2] emptyCollection)
           (mkRoute ''media'' True 4 False False) demoWorld = Inr (ok, rt1, w1)
         \<and> setStreamCalls (since demoWorld w1) = [(mkRoute ''media'' True 4 False False, 2)]
         \<and> (mkRoute ''media'' True 4 False False, 1) \<notin> set (setStreamCalls (since demoWorld w1)))"
proof -
  let ?media = "mkRoute ''media'' True 4 False False"
  let ?c' = "fold (addStream demoStreams) [1, 3, 2] emptyCollection"
  have f: "\<not> isDirect (demoStreams 1)" "isDirect (demoStreams 2)"
    "streamIsOut (demoStreams 1) = streamIsOut (demoStreams 2)"
    by (simp_all add: demoStreams_def mkStream_def)
  have d2: "dirOf (streamIsOut (demoStreams 2)) = Output"
    and d1: "dirOf (streamIsOut (demoStreams 1)) = Output"
    by (simp_all add: demoStreams_def mkStream_def dirOf_def)
  have e: "mOrderedStreamList emptyCollection Output = []"
    by (simp add: emptyCollection_def)
  have l: "mOrderedStreamList ?c' Output = [Some 2, Some 1]"
    by (simp add: addStream_def emptyCollection_def demoStreams_def mkStream_def dirOf_def)
  have c1: "candidate demoX ?media (streams demoWorld) 1"
    and c2: "candidate demoX ?media (streams demoWorld) 2"
    by (simp_all add: run_defs)
  have io: "isOut ?media = streamIsOut (demoStreams 2)"
    by (simp add: mkRoute_def demoStreams_def mkStream_def)
  have dm: "dirOf (isOut ?media) = Output"
    by (simp add: mkRoute_def dirOf_def)
  have "\<exists>ok rt1 w1.
      setStreamForRouteLoop demoX ?media [Some 2, Some 1] demoWorld = Inr (ok, rt1, w1)
      \<and> setStreamCalls (since demoWorld w1) = [(?media, 2)]"
    by (auto simp: run_defs)
  then obtain ok rt1 w1 where
    r: "setStreamForRoute demoX ?c' ?media demoWorld = Inr (ok, rt1, w1)"
    and calls: "setStreamCalls (since demoWorld w1) = [(?media, 2)]"
    unfolding setStreamForRoute_def dm l by blast
  note T = direct_stream_first [where st = demoStreams and c = emptyCollection and X = demoX
      and w = demoWorld and rt = ?media and nd = 1 and d = 2 and before = "[]" and mid = "[3]"
      and after = "[]" and ok = ok and ?rt1.0 = rt1 and ?w1.0 = w1]
  from T [of 2] f(2) have a1:
    "mOrderedStreamList (addStream demoStreams 2 emptyCollection) Output = [Some 2]"
    by (simp add: d2 e)
  note T2 = direct_stream_first [where st = demoStreams and a' = 1
      and c = "addStream demoStreams 2 emptyCollection"]
  have "mOrderedStreamList (addStream demoStreams 1 (addStream demoStreams 2 emptyCollection))
          (dirOf (streamIsOut (demoStreams 1)))
        = mOrderedStreamList (addStream demoStreams 2 emptyCollection)
            (dirOf (streamIsOut (demoStreams 1))) @ [Some 1]"
    by (rule mp [OF conjunct1 [OF conjunct2 [OF T2]] f(1)])
  then have a2:
    "mOrderedStreamList (addStream demoStreams 1 (addStream demoStreams 2 emptyCollection)) Output
       = [Some 2, Some 1]"
    unfolding d1 a1 by simp
  from T f io c2 r have n: "(?media, 1) \<notin> set (setStreamCalls (since demoWorld w1))"
    by simp
  show ?thesis
    by (intro conjI f a1 a2 l c1 c2 exI [of _ ok] exI [of _ rt1] exI [of _ w1] r calls n)
qed



end
